theory Spec2Isabelle
  imports Main "HOL-Library.Word" "HOL-Library.Sublist"
begin

section \<open>Strings and paths\<close>

text \<open>
  Python strings are modelled as \<^typ>\<open>string\<close>, byte strings as lists of 8-bit words.
  The path functions of the standard library are modelled after \<^verbatim>\<open>posixpath\<close>: the
  separator is the slash.
\<close>

type_synonym byte = "8 word"
type_synonym bytes = "byte list"

abbreviation slash :: char where
  "slash \<equiv> CHR ''/''"

text \<open>
  Python's slice \<^verbatim>\<open>s[i:j]\<close> with explicit integer bounds: a negative bound counts
  from the end, both bounds are clamped to the length, and an empty range gives the
  empty sequence. A slice never raises.
\<close>

definition slice_bound :: "nat \<Rightarrow> int \<Rightarrow> nat" where
  "slice_bound n i = (if i < 0 then nat (max (i + int n) 0) else min (nat i) n)"

definition py_slice :: "'a list \<Rightarrow> int \<Rightarrow> int \<Rightarrow> 'a list" where
  "py_slice s i j =
     (let lo = slice_bound (length s) i; hi = slice_bound (length s) j
      in take (hi - lo) (drop lo s))"

text \<open>\<^verbatim>\<open>str.lstrip("/")\<close>, \<^verbatim>\<open>str.rstrip("/")\<close> and \<^verbatim>\<open>str.strip("/")\<close>.\<close>

definition lstrip :: "char \<Rightarrow> string \<Rightarrow> string" where
  "lstrip c s = dropWhile (\<lambda>x. x = c) s"

definition rstrip :: "char \<Rightarrow> string \<Rightarrow> string" where
  "rstrip c s = rev (dropWhile (\<lambda>x. x = c) (rev s))"

definition strip :: "char \<Rightarrow> string \<Rightarrow> string" where
  "strip c s = rstrip c (lstrip c s)"

text \<open>
  \<^verbatim>\<open>def partition_hash(hash: str) -> str:
      return f"{hash[0:2]}/{hash[2:4]}/{hash}"\<close>
\<close>

definition partition_hash :: "string \<Rightarrow> string" where
  "partition_hash hash = py_slice hash 0 2 @ [slash] @ py_slice hash 2 4 @ [slash] @ hash"

section \<open>Errors\<close>

text \<open>
  Every exception the modelled code can raise is a value of \<open>error\<close>; an operation that
  can raise returns \<open>error + 'a\<close>, with \<open>Inl\<close> for the exception.
\<close>

datatype error =
    AssertionError
  | IndexError
  | KeyError
  | ValueError
  | FileNotFoundError
  | FileExistsError
  | IsADirectoryError
  | NotADirectoryError
  | ConnectionError
  | OperationalError
  | ProgrammingError

section \<open>The standard library: paths\<close>

text \<open>
  \<^verbatim>\<open>posixpath.split\<close>: the head is everything up to and including the last slash, the
  tail what follows it; trailing slashes are stripped from the head unless it consists
  of slashes only. \<^verbatim>\<open>dirname\<close> is the head.
\<close>

definition all_slashes :: "string \<Rightarrow> bool" where
  "all_slashes s = (lstrip slash s = [])"

definition path_head :: "string \<Rightarrow> string" where
  "path_head p = rev (dropWhile (\<lambda>c. c \<noteq> slash) (rev p))"

definition path_tail :: "string \<Rightarrow> string" where
  "path_tail p = rev (takeWhile (\<lambda>c. c \<noteq> slash) (rev p))"

definition os_path_split :: "string \<Rightarrow> string \<times> string" where
  "os_path_split p =
     (let head = path_head p; tail = path_tail p
      in (if head \<noteq> [] \<and> \<not> all_slashes head then rstrip slash head else head, tail))"

definition os_path_dirname :: "string \<Rightarrow> string" where
  "os_path_dirname p = fst (os_path_split p)"

text \<open>
  \<^verbatim>\<open>posixpath.join(a, b)\<close>: an absolute second component replaces the first; otherwise
  the two are joined by one slash, which is left out when the first component is empty
  or already ends in a slash.
\<close>

definition startswith_slash :: "string \<Rightarrow> bool" where
  "startswith_slash b = (case b of [] \<Rightarrow> False | c # _ \<Rightarrow> c = slash)"

definition endswith_slash :: "string \<Rightarrow> bool" where
  "endswith_slash a = (case rev a of [] \<Rightarrow> False | c # _ \<Rightarrow> c = slash)"

definition os_path_join :: "string \<Rightarrow> string \<Rightarrow> string" where
  "os_path_join a b =
     (if startswith_slash b then b
      else if a = [] \<or> endswith_slash a then a @ b
      else a @ [slash] @ b)"

section \<open>The standard library: the file system\<close>

text \<open>
  The file system maps a path to the node it names: a regular file with its content, or
  a directory. A path names a node by its spelling: the model does not identify different
  spellings of one file (repeated slashes, \<^verbatim>\<open>.\<close>, \<^verbatim>\<open>..\<close>, symbolic links), and it has
  neither permissions nor a size limit. The empty path names nothing, and a path of
  slashes only names the root directory.
\<close>

datatype node = File bytes | Dir

type_synonym filesystem = "string \<Rightarrow> node option"

definition lookup :: "filesystem \<Rightarrow> string \<Rightarrow> node option" where
  "lookup fs p = (if p = [] then None else if all_slashes p then Some Dir else fs p)"

definition os_path_exists :: "filesystem \<Rightarrow> string \<Rightarrow> bool" where
  "os_path_exists fs p = (lookup fs p \<noteq> None)"

text \<open>
  What creating or replacing the entry \<open>p\<close> needs of its parent directory: a path with
  no directory part is relative to the working directory, which exists.
\<close>

definition parent_error :: "filesystem \<Rightarrow> string \<Rightarrow> error option" where
  "parent_error fs p =
     (let d = os_path_dirname p
      in if d = [] then None
         else case lookup fs d of
                None \<Rightarrow> Some FileNotFoundError
              | Some (File _) \<Rightarrow> Some NotADirectoryError
              | Some Dir \<Rightarrow> None)"

definition os_mkdir :: "string \<Rightarrow> filesystem \<Rightarrow> (error + unit) \<times> filesystem" where
  "os_mkdir name fs =
     (if name = [] then (Inl FileNotFoundError, fs)
      else if os_path_exists fs name then (Inl FileExistsError, fs)
      else case parent_error fs name of
             Some e \<Rightarrow> (Inl e, fs)
           | None \<Rightarrow> (Inr (), fs(name \<mapsto> Dir)))"

text \<open>
  \<^verbatim>\<open>os.makedirs(name)\<close> with \<^verbatim>\<open>exist_ok=False\<close>, as the standard library writes it:
  \<^verbatim>\<open>
  head, tail = path.split(name)
  if not tail:
      head, tail = path.split(head)
  if head and tail and not path.exists(head):
      try:
          makedirs(head, exist_ok=exist_ok)
      except FileExistsError:
          pass
      if tail == curdir:
          return
  mkdir(name, mode)
  \<close>
\<close>

definition makedirs_split :: "string \<Rightarrow> string \<times> string" where
  "makedirs_split name =
     (if snd (os_path_split name) = [] then os_path_split (fst (os_path_split name))
      else os_path_split name)"

function os_makedirs :: "string \<Rightarrow> filesystem \<Rightarrow> (error + unit) \<times> filesystem" where
  "os_makedirs name fs =
     (if fst (makedirs_split name) \<noteq> [] \<and> snd (makedirs_split name) \<noteq> []
         \<and> \<not> os_path_exists fs (fst (makedirs_split name))
      then (case os_makedirs (fst (makedirs_split name)) fs of
              (Inl e, fs') \<Rightarrow>
                if e \<noteq> FileExistsError then (Inl e, fs')
                else if snd (makedirs_split name) = ''.'' then (Inr (), fs')
                else os_mkdir name fs'
            | (Inr _, fs') \<Rightarrow>
                if snd (makedirs_split name) = ''.'' then (Inr (), fs')
                else os_mkdir name fs')
      else os_mkdir name fs)"
  by pat_completeness auto
termination
proof (relation "measure (\<lambda>(name, fs). length name)")
  show "wf (measure (\<lambda>(name, fs). length name))"
    by simp
next
  fix name :: string and fs :: filesystem
  assume a: "fst (makedirs_split name) \<noteq> [] \<and> snd (makedirs_split name) \<noteq> []
    \<and> \<not> os_path_exists fs (fst (makedirs_split name))"
  have parts: "length (fst (os_path_split p)) + length (snd (os_path_split p)) \<le> length p"
    for p
  proof -
    have "length (path_head p) + length (path_tail p) = length p"
      unfolding path_head_def path_tail_def
      by (metis length_append length_rev takeWhile_dropWhile_id add.commute)
    moreover have "length (rstrip slash (path_head p)) \<le> length (path_head p)"
      unfolding rstrip_def
      using length_dropWhile_le [of "\<lambda>x. x = slash" "rev (path_head p)"] by simp
    ultimately show ?thesis
      by (simp add: os_path_split_def Let_def)
  qed
  have "length (fst (makedirs_split name)) + length (snd (makedirs_split name)) \<le> length name"
  proof (cases "snd (os_path_split name) = []")
    case True
    have "length (fst (os_path_split name)) \<le> length name"
      using parts [of name] by simp
    with parts [of "fst (os_path_split name)"] True show ?thesis
      by (simp add: makedirs_split_def)
  next
    case False
    with parts [of name] show ?thesis
      by (simp add: makedirs_split_def)
  qed
  with a have "length (fst (makedirs_split name)) < length name"
    by (cases "snd (makedirs_split name)") auto
  then show "((fst (makedirs_split name), fs), (name, fs)) \<in> measure (\<lambda>(name, fs). length name)"
    by simp
qed

declare os_makedirs.simps [simp del]

text \<open>
  Opening a file for writing (\<^verbatim>\<open>open(p, "wb")\<close>) creates it empty, or truncates it. The
  handle records the path it was opened at and whether it has been closed. A write
  appends to the file at that path; writes are taken to reach the file at once (the
  buffer of the handle is not modelled). A write through a handle whose path no longer
  names a regular file succeeds and shows at no path.
\<close>

record file_handle =
  fh_path :: string
  fh_closed :: bool

definition open_wb :: "string \<Rightarrow> filesystem \<Rightarrow> (error + file_handle) \<times> filesystem" where
  "open_wb p fs =
     (if p = [] then (Inl FileNotFoundError, fs)
      else if lookup fs p = Some Dir then (Inl IsADirectoryError, fs)
      else case parent_error fs p of
             Some e \<Rightarrow> (Inl e, fs)
           | None \<Rightarrow> (Inr \<lparr>fh_path = p, fh_closed = False\<rparr>, fs(p \<mapsto> File [])))"

definition file_write :: "file_handle \<Rightarrow> bytes \<Rightarrow> filesystem \<Rightarrow> (error + unit) \<times> filesystem" where
  "file_write f data fs =
     (if fh_closed f then (Inl ValueError, fs)
      else case fs (fh_path f) of
             Some (File old) \<Rightarrow> (Inr (), fs(fh_path f \<mapsto> File (old @ data)))
           | _ \<Rightarrow> (Inr (), fs))"

definition file_close :: "file_handle \<Rightarrow> file_handle" where
  "file_close f = f\<lparr>fh_closed := True\<rparr>"

text \<open>
  \<^verbatim>\<open>os.rename(src, dst)\<close> moves the entry, replacing a regular file at the destination.
  The program only ever renames a regular file; for a directory the model moves the entry
  alone.
\<close>

definition os_rename :: "string \<Rightarrow> string \<Rightarrow> filesystem \<Rightarrow> (error + unit) \<times> filesystem" where
  "os_rename src dst fs =
     (case lookup fs src of
        None \<Rightarrow> (Inl FileNotFoundError, fs)
      | Some n \<Rightarrow>
          if dst = [] then (Inl FileNotFoundError, fs)
          else case parent_error fs dst of
                 Some e \<Rightarrow> (Inl e, fs)
               | None \<Rightarrow>
                   (case (n, lookup fs dst) of
                      (File _, Some Dir) \<Rightarrow> (Inl IsADirectoryError, fs)
                    | (Dir, Some (File _)) \<Rightarrow> (Inl NotADirectoryError, fs)
                    | _ \<Rightarrow> (Inr (), fs(src := None, dst := Some n))))"

section \<open>Byte streams\<close>

text \<open>
  A readable binary stream (\<^verbatim>\<open>typing.IO\<close>: the body of an HTTP response, or a file opened
  for reading). \<open>pending\<close> are the bytes it will still deliver; \<open>broken\<close> says that the
  transfer fails once they are exhausted, instead of reaching the end of the stream.
  \<^verbatim>\<open>read()\<close> returns everything up to the end of the stream, \<^verbatim>\<open>read(n)\<close> at most \<open>n\<close>
  bytes, and a negative \<open>n\<close> reads to the end like \<^verbatim>\<open>read()\<close>. A read that hits the failure
  raises and returns nothing; reading a closed stream raises.
\<close>

record stream =
  pending :: bytes
  broken :: bool
  closed :: bool

definition stream_read_all :: "stream \<Rightarrow> (error + bytes) \<times> stream" where
  "stream_read_all s =
     (if closed s then (Inl ValueError, s)
      else if broken s then (Inl ConnectionError, s\<lparr>pending := []\<rparr>)
      else (Inr (pending s), s\<lparr>pending := []\<rparr>))"

definition stream_read :: "int \<Rightarrow> stream \<Rightarrow> (error + bytes) \<times> stream" where
  "stream_read n s =
     (if closed s then (Inl ValueError, s)
      else if n < 0 \<or> length (pending s) < nat n then stream_read_all s
      else (Inr (take (nat n) (pending s)), s\<lparr>pending := drop (nat n) (pending s)\<rparr>))"

definition stream_close :: "stream \<Rightarrow> stream" where
  "stream_close s = s\<lparr>closed := True\<rparr>"

definition open_rb :: "string \<Rightarrow> filesystem \<Rightarrow> error + stream" where
  "open_rb p fs =
     (case lookup fs p of
        None \<Rightarrow> Inl FileNotFoundError
      | Some Dir \<Rightarrow> Inl IsADirectoryError
      | Some (File b) \<Rightarrow> Inr \<lparr>pending = b, broken = False, closed = False\<rparr>)"

section \<open>The network\<close>

text \<open>
  \<^verbatim>\<open>requests.get(url, stream=True)\<close> either raises (no response: \<open>None\<close>) or gives a
  response with its headers, of which the code reads \<^verbatim>\<open>content-length\<close>, and its body
  as a stream. The origin servers are a parameter of the model; the world records, in
  order, the URL of every GET that was issued.
\<close>

record http_response =
  content_length :: "string option"
  raw :: stream

type_synonym origin = "string \<Rightarrow> http_response option"

record world =
  fs :: filesystem
  requests :: "string list"

section \<open>cdn.py\<close>

subsection \<open>RemoteCDN\<close>

text \<open>
  The CDN descriptor (\<^verbatim>\<open>CDNs\<close> of \<^verbatim>\<open>keg/http.py\<close>) is used through its
  \<^verbatim>\<open>all_servers\<close> and \<^verbatim>\<open>path\<close> attributes only.
  \<^verbatim>\<open>
  def __init__(self, cdn):
      assert cdn.all_servers
      self.server = cdn.all_servers[0]
      self.path = cdn.path
  \<close>
  The flag \<open>debug\<close> is Python's \<^verbatim>\<open>__debug__\<close>: without it (\<^verbatim>\<open>python -O\<close>) the assertion
  is not compiled, and the subscript raises on an empty list.
\<close>

record cdn_descriptor =
  all_servers :: "string list"
  cdn_path :: string

record remote_cdn =
  server :: string
  remote_path :: string

definition RemoteCDN_init :: "bool \<Rightarrow> cdn_descriptor \<Rightarrow> error + remote_cdn" where
  "RemoteCDN_init debug cdn =
     (if debug \<and> all_servers cdn = [] then Inl AssertionError
      else case all_servers cdn of
             [] \<Rightarrow> Inl IndexError
           | s # _ \<Rightarrow> Inr \<lparr>server = s, remote_path = cdn_path cdn\<rparr>)"

text \<open>
  \<^verbatim>\<open>
  def get_item(self, path: str) -> IO:
      url = f"{self.server}/{self.path}{path}"
      print(f"HTTP GET {url}")
      resp = requests.get(url, stream=True)
      print(f"Downloading {resp.headers['content-length']} bytes...")
      return resp.raw
  \<close>
  What is printed is not modelled; the header lookup that the second \<^verbatim>\<open>print\<close> makes is.
\<close>

definition remote_url :: "remote_cdn \<Rightarrow> string \<Rightarrow> string" where
  "remote_url r path = server r @ [slash] @ remote_path r @ path"

definition RemoteCDN_get_item ::
  "origin \<Rightarrow> remote_cdn \<Rightarrow> string \<Rightarrow> world \<Rightarrow> (error + stream) \<times> world" where
  "RemoteCDN_get_item net r path w =
     (let url = remote_url r path;
          w' = w\<lparr>requests := requests w @ [url]\<rparr>
      in case net url of
           None \<Rightarrow> (Inl ConnectionError, w')
         | Some resp \<Rightarrow>
             (case content_length resp of
                None \<Rightarrow> (Inl KeyError, w')
              | Some _ \<Rightarrow> (Inr (raw resp), w')))"

subsection \<open>LocalCDN\<close>

text \<open>
  \<^verbatim>\<open>
  def get_full_path(self, path: str) -> str:
      return os.path.join(self.base_dir, path.lstrip("/"))
  def get_item(self, path: str) -> IO:
      return open(self.get_full_path(path), "rb")
  def exists(self, path: str) -> bool:
      return os.path.exists(self.get_full_path(path))
  \<close>
\<close>

record local_cdn =
  base_dir :: string

definition get_full_path :: "local_cdn \<Rightarrow> string \<Rightarrow> string" where
  "get_full_path l path = os_path_join (base_dir l) (lstrip slash path)"

definition LocalCDN_get_item :: "local_cdn \<Rightarrow> string \<Rightarrow> filesystem \<Rightarrow> error + stream" where
  "LocalCDN_get_item l path files = open_rb (get_full_path l path) files"

definition LocalCDN_exists :: "local_cdn \<Rightarrow> string \<Rightarrow> filesystem \<Rightarrow> bool" where
  "LocalCDN_exists l path files = os_path_exists files (get_full_path l path)"

subsection \<open>HTTPCacheWrapper\<close>

text \<open>
  \<^verbatim>\<open>
  def __init__(self, obj: IO, path: str) -> None:
      self._obj = obj
      dir_path = os.path.dirname(path)
      if not os.path.exists(dir_path):
          os.makedirs(dir_path)
      self._real_path = path
      self._temp_path = path + ".keg_temp"
      self._cache_file = open(self._temp_path, "wb")
  \<close>
\<close>

record http_cache_wrapper =
  obj :: stream
  real_path :: string
  temp_path :: string
  cache_file :: file_handle

definition HTTPCacheWrapper_init ::
  "stream \<Rightarrow> string \<Rightarrow> filesystem \<Rightarrow> (error + http_cache_wrapper) \<times> filesystem" where
  "HTTPCacheWrapper_init ob path files =
     (let dir_path = os_path_dirname path;
          made = (if \<not> os_path_exists files dir_path then os_makedirs dir_path files
                  else (Inr (), files))
      in case made of
           (Inl e, files1) \<Rightarrow> (Inl e, files1)
         | (Inr _, files1) \<Rightarrow>
             (case open_wb (path @ ''.keg_temp'') files1 of
                (Inl e, files2) \<Rightarrow> (Inl e, files2)
              | (Inr f, files2) \<Rightarrow>
                  (Inr \<lparr>obj = ob, real_path = path, temp_path = path @ ''.keg_temp'',
                        cache_file = f\<rparr>, files2)))"

text \<open>
  \<^verbatim>\<open>
  def read(self, bytes: int=-1) -> bytes:
      if bytes == -1:
          ret = self._obj.read()
      else:
          ret = self._obj.read(bytes)
      if ret:
          self._cache_file.write(ret)
      return ret
  \<close>
\<close>

definition HTTPCacheWrapper_read ::
  "http_cache_wrapper \<Rightarrow> int \<Rightarrow> filesystem
     \<Rightarrow> (error + bytes) \<times> http_cache_wrapper \<times> filesystem" where
  "HTTPCacheWrapper_read h n files =
     (case (if n = - 1 then stream_read_all (obj h) else stream_read n (obj h)) of
        (Inl e, ob') \<Rightarrow> (Inl e, h\<lparr>obj := ob'\<rparr>, files)
      | (Inr ret, ob') \<Rightarrow>
          if ret \<noteq> [] then
            (case file_write (cache_file h) ret files of
               (Inl e, files') \<Rightarrow> (Inl e, h\<lparr>obj := ob'\<rparr>, files')
             | (Inr _, files') \<Rightarrow> (Inr ret, h\<lparr>obj := ob'\<rparr>, files'))
          else (Inr ret, h\<lparr>obj := ob'\<rparr>, files))"

text \<open>
  \<^verbatim>\<open>
  def close(self):
      self.read()
      self._cache_file.close()
      # Atomic write&move; make sure there's no partially-written caches.
      os.rename(self._temp_path, self._real_path)
      return self._obj.close()
  \<close>
  An exception in one statement leaves the statements after it undone.
\<close>

definition HTTPCacheWrapper_close ::
  "http_cache_wrapper \<Rightarrow> filesystem \<Rightarrow> (error + unit) \<times> http_cache_wrapper \<times> filesystem" where
  "HTTPCacheWrapper_close h files =
     (case HTTPCacheWrapper_read h (- 1) files of
        (Inl e, h1, files1) \<Rightarrow> (Inl e, h1, files1)
      | (Inr _, h1, files1) \<Rightarrow>
          (let h2 = h1\<lparr>cache_file := file_close (cache_file h1)\<rparr>
           in case os_rename (temp_path h2) (real_path h2) files1 of
                (Inl e, files2) \<Rightarrow> (Inl e, h2, files2)
              | (Inr _, files2) \<Rightarrow> (Inr (), h2\<lparr>obj := stream_close (obj h2)\<rparr>, files2)))"


subsection \<open>CacheableCDNWrapper\<close>

text \<open>
  \<^verbatim>\<open>
  def __init__(self, cdns_response, base_dir: str) -> None:
      if not os.path.exists(base_dir):
          os.makedirs(base_dir)
      self.local_cdn = LocalCDN(base_dir)
      self.remote_cdn = RemoteCDN(cdns_response)
  \<close>
\<close>

record cacheable_cdn_wrapper =
  local_cdn :: local_cdn
  remote_cdn :: remote_cdn

definition CacheableCDNWrapper_init ::
  "bool \<Rightarrow> cdn_descriptor \<Rightarrow> string \<Rightarrow> world \<Rightarrow> (error + cacheable_cdn_wrapper) \<times> world" where
  "CacheableCDNWrapper_init debug cdns_response dir w =
     (case (if \<not> os_path_exists (fs w) dir then os_makedirs dir (fs w) else (Inr (), fs w)) of
        (Inl e, files) \<Rightarrow> (Inl e, w\<lparr>fs := files\<rparr>)
      | (Inr _, files) \<Rightarrow>
          (case RemoteCDN_init debug cdns_response of
             Inl e \<Rightarrow> (Inl e, w\<lparr>fs := files\<rparr>)
           | Inr r \<Rightarrow> (Inr \<lparr>local_cdn = \<lparr>base_dir = dir\<rparr>, remote_cdn = r\<rparr>, w\<lparr>fs := files\<rparr>)))"

text \<open>
  \<^verbatim>\<open>
  def get_item(self, path: str) -> IO:
      if not self.local_cdn.exists(path):
          cache_file_path = self.local_cdn.get_full_path(path)
          f = HTTPCacheWrapper(self.remote_cdn.get_item(path), cache_file_path)
          f.close()
      return self.local_cdn.get_item(path)
  \<close>
\<close>

definition CacheableCDNWrapper_get_item ::
  "origin \<Rightarrow> cacheable_cdn_wrapper \<Rightarrow> string \<Rightarrow> world \<Rightarrow> (error + stream) \<times> world" where
  "CacheableCDNWrapper_get_item net c path w =
     (if \<not> LocalCDN_exists (local_cdn c) path (fs w) then
        (let cache_file_path = get_full_path (local_cdn c) path
         in case RemoteCDN_get_item net (remote_cdn c) path w of
              (Inl e, w1) \<Rightarrow> (Inl e, w1)
            | (Inr body, w1) \<Rightarrow>
                (case HTTPCacheWrapper_init body cache_file_path (fs w1) of
                   (Inl e, files2) \<Rightarrow> (Inl e, w1\<lparr>fs := files2\<rparr>)
                 | (Inr f, files2) \<Rightarrow>
                     (case HTTPCacheWrapper_close f files2 of
                        (Inl e, _, files3) \<Rightarrow> (Inl e, w1\<lparr>fs := files3\<rparr>)
                      | (Inr _, _, files3) \<Rightarrow>
                          (LocalCDN_get_item (local_cdn c) path files3, w1\<lparr>fs := files3\<rparr>))))
      else (LocalCDN_get_item (local_cdn c) path (fs w), w))"

text \<open>
  \<^verbatim>\<open>
  def has_config(self, key: str) -> bool:
      path = f"/config/{partition_hash(key)}"
      return self.local_cdn.exists(path)
  def has_data(self, key: str) -> bool:
      path = f"/data/{partition_hash(key)}"
      return self.local_cdn.exists(path)
  def has_index(self, key: str) -> bool:
      path = f"/data/{partition_hash(key)}.index"
      return self.local_cdn.exists(path)
  \<close>
  Each is a method run in the world: it returns its answer and the world it leaves.
\<close>

definition has_config :: "cacheable_cdn_wrapper \<Rightarrow> string \<Rightarrow> world \<Rightarrow> bool \<times> world" where
  "has_config c key w =
     (let path = ''/config/'' @ partition_hash key
      in (LocalCDN_exists (local_cdn c) path (fs w), w))"

definition has_data :: "cacheable_cdn_wrapper \<Rightarrow> string \<Rightarrow> world \<Rightarrow> bool \<times> world" where
  "has_data c key w =
     (let path = ''/data/'' @ partition_hash key
      in (LocalCDN_exists (local_cdn c) path (fs w), w))"

definition has_index :: "cacheable_cdn_wrapper \<Rightarrow> string \<Rightarrow> world \<Rightarrow> bool \<times> world" where
  "has_index c key w =
     (let path = ''/data/'' @ partition_hash key @ ''.index''
      in (LocalCDN_exists (local_cdn c) path (fs w), w))"

section \<open>__init__.py\<close>

text \<open>
  \<^verbatim>\<open>class Source(IntEnum): HTTP = 1\<close>
\<close>

datatype source = HTTP

fun source_value :: "source \<Rightarrow> int" where
  "source_value HTTP = 1"

subsection \<open>The collaborators from \<^verbatim>\<open>keg/http.py\<close> and \<^verbatim>\<open>keg/psv.py\<close>\<close>

text \<open>
  Of the response object of \<^verbatim>\<open>keg.http\<close> the code uses \<^verbatim>\<open>digest\<close>, \<^verbatim>\<open>timestamp\<close> and
  \<^verbatim>\<open>write_to_cache\<close>; of a parsed table (\<^verbatim>\<open>psv.PSVFile\<close>) its \<^verbatim>\<open>header\<close> and its rows.
  The parser \<^verbatim>\<open>psv.loads\<close> is a parameter of the model.
\<close>

record response =
  resp_path :: string
  digest :: string
  timestamp :: int
  content :: string

record psvfile =
  header :: "string list"
  psv_rows :: "string list list"

type_synonym psv_loads = "string \<Rightarrow> error + psvfile"

datatype cdns = CDNs "string list"

text \<open>
  The relational store, as the connection sees it. Modelled from the spec: the schema,
  which is declared elsewhere in the repository: a table \<^verbatim>\<open>responses\<close> with
  the columns \<^verbatim>\<open>remote, path, timestamp, digest, source\<close> and no constraint, and one table
  per tabular path with the columns \<^verbatim>\<open>remote, key, row\<close> and one column per header name.
  A table that was never created is \<open>None\<close>. Rows are kept in insertion order.
\<close>

record response_row =
  rr_remote :: string
  rr_path :: string
  rr_timestamp :: int
  rr_digest :: string
  rr_source :: int

record table_row =
  tr_remote :: string
  tr_key :: string
  tr_row :: nat
  tr_cells :: "(string \<times> string) list"

record database =
  responses :: "response_row list"
  tables :: "string \<Rightarrow> table_row list option"

text \<open>
  The world of the orchestrator: the store as the connection sees it (\<open>db\<close>) and as it
  was last committed; the disk cache of responses, by cache directory, path and digest;
  the answers the remote will give to the requests to come (digest, timestamp and body,
  \<open>None\<close> for a failed transfer); and the requests made so far, as remote and path.
\<close>

record keg_world =
  db :: database
  committed :: database
  disk_cache :: "string \<times> string \<times> string \<Rightarrow> string option"
  live :: "(string \<times> int \<times> string) option list"
  fetches :: "(string \<times> string) list"

text \<open>
  Modelled from the spec: \<^verbatim>\<open>HttpBackend.get_psv\<close> (of \<^verbatim>\<open>keg/http.py\<close>, which is not
  embedded here) makes one request to the remote for the path and returns the parsed
  table with the response.
\<close>

definition HttpBackend_get_psv ::
  "psv_loads \<Rightarrow> string \<Rightarrow> string \<Rightarrow> keg_world \<Rightarrow> (error + psvfile \<times> response) \<times> keg_world" where
  "HttpBackend_get_psv loads rem path w =
     (let w' = w\<lparr>fetches := fetches w @ [(rem, path)]\<rparr>
      in case live w of
           [] \<Rightarrow> (Inl ConnectionError, w')
         | None # rest \<Rightarrow> (Inl ConnectionError, w'\<lparr>live := rest\<rparr>)
         | Some (d, t, c) # rest \<Rightarrow>
             (case loads c of
                Inl e \<Rightarrow> (Inl e, w'\<lparr>live := rest\<rparr>)
              | Inr p \<Rightarrow>
                  (Inr (p, \<lparr>resp_path = path, digest = d, timestamp = t, content = c\<rparr>),
                   w'\<lparr>live := rest\<rparr>)))"

text \<open>
  Modelled from the spec: \<^verbatim>\<open>response.write_to_cache(cache_dir)\<close> stores the body of the
  response in the disk cache, and \<^verbatim>\<open>StateCache(cache_dir).read(path, key)\<close> reads a stored
  body back by path and digest, without network access (both of \<^verbatim>\<open>keg/http.py\<close>).
\<close>

definition write_to_cache :: "response \<Rightarrow> string \<Rightarrow> keg_world \<Rightarrow> keg_world" where
  "write_to_cache r dir w =
     w\<lparr>disk_cache := (disk_cache w)((dir, resp_path r, digest r) \<mapsto> content r)\<rparr>"

definition StateCache_read :: "string \<Rightarrow> string \<Rightarrow> string \<Rightarrow> keg_world \<Rightarrow> error + string" where
  "StateCache_read dir path key w =
     (case disk_cache w (dir, path, key) of
        None \<Rightarrow> Inl FileNotFoundError
      | Some data \<Rightarrow> Inr data)"

subsection \<open>The statements sent to the store\<close>

text \<open>
  \<^verbatim>\<open>DELETE FROM "table" where remote = ? and key = ?\<close>; it raises when there is no such
  table.
\<close>

definition row_matches :: "string \<Rightarrow> string \<Rightarrow> table_row \<Rightarrow> bool" where
  "row_matches rem key r = (tr_remote r = rem \<and> tr_key r = key)"

definition sql_delete :: "string \<Rightarrow> string \<Rightarrow> string \<Rightarrow> database \<Rightarrow> error + database" where
  "sql_delete table_name rem key d =
     (case tables d table_name of
        None \<Rightarrow> Inl OperationalError
      | Some rows \<Rightarrow>
          Inr (d\<lparr>tables := (tables d)(table_name \<mapsto> filter (\<lambda>r. \<not> row_matches rem key r) rows)\<rparr>))"

text \<open>
  \<^verbatim>\<open>INSERT INTO "table" (remote, key, row, h1, ..., hn) values (?, ?, ?, ?, ..., ?)\<close>, run
  by \<^verbatim>\<open>executemany\<close> over the parameter lists \<^verbatim>\<open>[remote, digest, i, *row]\<close>. The statement
  is compiled before the first row: with an empty header its column list ends in a comma
  and it does not compile. A row with more or fewer values than the header has names does
  not fit the placeholders; the rows before it stay inserted. The table is taken to have
  a column for every header name.
\<close>

definition tagged_row :: "string list \<Rightarrow> string \<times> string \<times> nat \<times> string list \<Rightarrow> table_row" where
  "tagged_row hdr p =
     (case p of (rem, key, i, vals) \<Rightarrow>
        \<lparr>tr_remote = rem, tr_key = key, tr_row = i, tr_cells = zip hdr vals\<rparr>)"

fun insert_each ::
  "string list \<Rightarrow> (string \<times> string \<times> nat \<times> string list) list \<Rightarrow> table_row list
     \<Rightarrow> (error + unit) \<times> table_row list" where
  "insert_each hdr [] rows = (Inr (), rows)"
| "insert_each hdr (p # ps) rows =
     (if length (snd (snd (snd p))) \<noteq> length hdr then (Inl ProgrammingError, rows)
      else insert_each hdr ps (rows @ [tagged_row hdr p]))"

definition sql_executemany_insert ::
  "string \<Rightarrow> string list \<Rightarrow> (string \<times> string \<times> nat \<times> string list) list \<Rightarrow> database
     \<Rightarrow> (error + unit) \<times> database" where
  "sql_executemany_insert table_name hdr params d =
     (if hdr = [] then (Inl OperationalError, d)
      else case tables d table_name of
             None \<Rightarrow> (Inl OperationalError, d)
           | Some rows \<Rightarrow>
               (case insert_each hdr params rows of
                  (r, rows') \<Rightarrow> (r, d\<lparr>tables := (tables d)(table_name \<mapsto> rows')\<rparr>)))"

text \<open>
  \<^verbatim>\<open>INSERT INTO "responses" (remote, path, timestamp, digest, source) VALUES (?, ?, ?, ?, ?)\<close>
\<close>

definition sql_insert_response ::
  "string \<Rightarrow> string \<Rightarrow> int \<Rightarrow> string \<Rightarrow> source \<Rightarrow> database \<Rightarrow> database" where
  "sql_insert_response rem path t dg src d =
     d\<lparr>responses := responses d @
          [\<lparr>rr_remote = rem, rr_path = path, rr_timestamp = t, rr_digest = dg,
            rr_source = source_value src\<rparr>]\<rparr>"

text \<open>
  \<^verbatim>\<open>SELECT digest FROM responses WHERE remote = ? AND path = ? ORDER BY timestamp DESC LIMIT 1\<close>
  followed by \<^verbatim>\<open>fetchone()\<close>. SQL leaves open which of several rows with the greatest
  timestamp comes first; the model takes the one inserted first.
\<close>

fun latest :: "response_row list \<Rightarrow> response_row option" where
  "latest [] = None"
| "latest (r # rs) =
     (case latest rs of
        None \<Rightarrow> Some r
      | Some m \<Rightarrow> if rr_timestamp r < rr_timestamp m then Some m else Some r)"

definition response_for :: "string \<Rightarrow> string \<Rightarrow> response_row \<Rightarrow> bool" where
  "response_for rem path r = (rr_remote r = rem \<and> rr_path r = path)"

definition sql_select_latest_digest :: "string \<Rightarrow> string \<Rightarrow> database \<Rightarrow> string option" where
  "sql_select_latest_digest rem path d =
     map_option rr_digest (latest (filter (response_for rem path) (responses d)))"

subsection \<open>Keg\<close>

record keg =
  remote :: string
  cache_dir :: string

text \<open>
  \<^verbatim>\<open>
  def get_psv(self, path: str):
      psvfile, response = super().get_psv(path)
      response.write_to_cache(self.cache_dir)
      table_name = path.strip("/")
      cursor = self.cache_db.cursor()
      cursor.execute("""DELETE FROM "%s" where remote = ? and key = ?""" % (table_name),
          (self.remote, response.digest, ))
      insert_tpl = 'INSERT INTO "%s" (remote, key, row, %s) values (?, ?, ?, %s)' % (
          table_name, ", ".join(psvfile.header), ", ".join(["?"] * (len(psvfile.header))))
      cursor.executemany(insert_tpl, [
          [self.remote, response.digest, i, *row] for i, row in enumerate(psvfile)])
      cursor.execute("""INSERT INTO "responses" (remote, path, timestamp, digest, source)
          VALUES (?, ?, ?, ?, ?)""",
          (self.remote, path, response.timestamp, response.digest, Source.HTTP))
      self.cache_db.commit()
      return psvfile, response
  \<close>
\<close>

definition row_params :: "string \<Rightarrow> string \<Rightarrow> psvfile \<Rightarrow> (string \<times> string \<times> nat \<times> string list) list" where
  "row_params rem dg p = map (\<lambda>(i, row). (rem, dg, i, row)) (enumerate 0 (psv_rows p))"

definition Keg_get_psv ::
  "psv_loads \<Rightarrow> keg \<Rightarrow> string \<Rightarrow> keg_world \<Rightarrow> (error + psvfile \<times> response) \<times> keg_world" where
  "Keg_get_psv loads k path w =
     (case HttpBackend_get_psv loads (remote k) path w of
        (Inl e, w1) \<Rightarrow> (Inl e, w1)
      | (Inr (p, r), w1) \<Rightarrow>
          (let w2 = write_to_cache r (cache_dir k) w1;
               table_name = strip slash path
           in case sql_delete table_name (remote k) (digest r) (db w2) of
                Inl e \<Rightarrow> (Inl e, w2)
              | Inr d1 \<Rightarrow>
                  (case sql_executemany_insert table_name (header p)
                          (row_params (remote k) (digest r) p) d1 of
                     (Inl e, d2) \<Rightarrow> (Inl e, w2\<lparr>db := d2\<rparr>)
                   | (Inr _, d2) \<Rightarrow>
                       (let d3 = sql_insert_response (remote k) path (timestamp r) (digest r)
                                   HTTP d2
                        in (Inr (p, r), w2\<lparr>db := d3, committed := d3\<rparr>)))))"

text \<open>
  \<^verbatim>\<open>
  def get_cached_psv(self, path: str, key: str, cache_dir: str) -> psv.PSVFile:
      data = StateCache(cache_dir).read(path, key)
      return psv.loads(data)
  \<close>
\<close>

definition Keg_get_cached_psv ::
  "psv_loads \<Rightarrow> string \<Rightarrow> string \<Rightarrow> string \<Rightarrow> keg_world \<Rightarrow> error + psvfile" where
  "Keg_get_cached_psv loads path key dir w =
     (case StateCache_read dir path key w of
        Inl e \<Rightarrow> Inl e
      | Inr data \<Rightarrow> loads data)"

text \<open>
  Modelled from the spec: \<^verbatim>\<open>HttpBackend.get_cdns\<close> (of \<^verbatim>\<open>keg/http.py\<close>) is the live
  tabular fetch of \<^verbatim>\<open>/cdns\<close> through \<^verbatim>\<open>get_psv\<close>, which on a Keg is
  the method above and so fills the cache; it returns one descriptor per row.
\<close>

definition Keg_get_cdns :: "psv_loads \<Rightarrow> keg \<Rightarrow> keg_world \<Rightarrow> (error + cdns list) \<times> keg_world" where
  "Keg_get_cdns loads k w =
     (case Keg_get_psv loads k ''/cdns'' w of
        (Inl e, w1) \<Rightarrow> (Inl e, w1)
      | (Inr (p, r), w1) \<Rightarrow> (Inr (map CDNs (psv_rows p)), w1))"

text \<open>
  \<^verbatim>\<open>
  def get_cached_cdns(self, remote: str, cache_dir: str) -> List[CDNs]:
      cursor = self.cache_db.cursor()
      cursor.execute("""SELECT digest FROM responses WHERE remote = ? AND path = ?
          ORDER BY timestamp DESC LIMIT 1""", (remote, "/cdns"))
      results = cursor.fetchone()
      if not results:
          # Fall back to querying live
          return self.get_cdns()
      psvfile = self.get_cached_psv("/cdns", results[0], cache_dir)
      return [CDNs(row) for row in psvfile]
  \<close>
\<close>

definition Keg_get_cached_cdns ::
  "psv_loads \<Rightarrow> keg \<Rightarrow> string \<Rightarrow> string \<Rightarrow> keg_world \<Rightarrow> (error + cdns list) \<times> keg_world" where
  "Keg_get_cached_cdns loads k rem dir w =
     (case sql_select_latest_digest rem ''/cdns'' (db w) of
        None \<Rightarrow> Keg_get_cdns loads k w
      | Some dg \<Rightarrow>
          (case Keg_get_cached_psv loads ''/cdns'' dg dir w of
             Inl e \<Rightarrow> (Inl e, w)
           | Inr p \<Rightarrow> (Inr (map CDNs (psv_rows p)), w)))"

section \<open>Auxiliary notions\<close>

text \<open>
  The state of a cache writer between its construction and its release: its handle is
  open on its temp file, the temp path is the destination followed by \<^verbatim>\<open>.keg_temp\<close>,
  and, unless the upstream is one that fails, what the temp file holds followed by what the
  upstream will still deliver is the whole upstream byte sequence \<open>data\<close>.
\<close>

definition tee_state :: "bytes \<Rightarrow> http_cache_wrapper \<Rightarrow> filesystem \<Rightarrow> bool" where
  "tee_state data h files \<longleftrightarrow>
     cache_file h = \<lparr>fh_path = temp_path h, fh_closed = False\<rparr>
     \<and> temp_path h = real_path h @ ''.keg_temp''
     \<and> (\<exists>written. files (temp_path h) = Some (File written)
           \<and> (broken (obj h) \<or> written @ pending (obj h) = data))"

text \<open>
  The rows of a table for one remote and digest; the rows a fetched table contributes,
  tagged with remote, digest and ordinal; the response record of a fetch; and the
  response records for one remote and digest.
\<close>

definition rows_of :: "string \<Rightarrow> string \<Rightarrow> table_row list \<Rightarrow> table_row list" where
  "rows_of rem key rows = filter (row_matches rem key) rows"

definition fetched_rows :: "string \<Rightarrow> psvfile \<Rightarrow> response \<Rightarrow> table_row list" where
  "fetched_rows rem p r = map (tagged_row (header p)) (row_params rem (digest r) p)"

definition response_record :: "string \<Rightarrow> string \<Rightarrow> response \<Rightarrow> response_row" where
  "response_record rem path r =
     \<lparr>rr_remote = rem, rr_path = path, rr_timestamp = timestamp r, rr_digest = digest r,
      rr_source = 1\<rparr>"

definition response_records :: "string \<Rightarrow> string \<Rightarrow> database \<Rightarrow> response_row list" where
  "response_records rem dg d = filter (\<lambda>r. rr_remote r = rem \<and> rr_digest r = dg) (responses d)"

section \<open>Concrete inputs\<close>

text \<open>Small worlds on which the theorems below are instantiated.\<close>

definition good_body :: stream where
  "good_body = \<lparr>pending = [1, 2, 3], broken = False, closed = False\<rparr>"


definition example_origin :: origin where
  "example_origin url =
     (if url = ''http://a/tpr/x'' then Some \<lparr>content_length = Some ''3'', raw = good_body\<rparr>
      else None)"

definition empty_world :: world where
  "empty_world = \<lparr>fs = (\<lambda>p. None), requests = []\<rparr>"

definition example_remote :: remote_cdn where
  "example_remote = \<lparr>server = ''http://a'', remote_path = ''tpr''\<rparr>"

definition example_cdn :: cacheable_cdn_wrapper where
  "example_cdn = \<lparr>local_cdn = \<lparr>base_dir = ''c''\<rparr>, remote_cdn = example_remote\<rparr>"

definition config_world :: world where
  "config_world = \<lparr>fs = (\<lambda>p. None)(''c/config/ab/cd/abcd'' \<mapsto> File [7]), requests = []\<rparr>"

definition cache_files :: filesystem where
  "cache_files = (\<lambda>p. None)(''c'' \<mapsto> Dir)"

definition fresh_wrapper :: "stream \<Rightarrow> http_cache_wrapper" where
  "fresh_wrapper ob = \<lparr>obj = ob, real_path = ''c/x'', temp_path = ''c/x.keg_temp'',
     cache_file = \<lparr>fh_path = ''c/x.keg_temp'', fh_closed = False\<rparr>\<rparr>"

definition fresh_files :: filesystem where
  "fresh_files = cache_files(''c/x.keg_temp'' \<mapsto> File [])"



definition cold_world :: world where
  "cold_world = \<lparr>fs = cache_files, requests = []\<rparr>"

definition warm_world :: world where
  "warm_world = \<lparr>fs = cache_files(''c/x'' \<mapsto> File [1, 2, 3]), requests = []\<rparr>"

definition example_loads :: psv_loads where
  "example_loads c =
     (if c = ''Name|eu|us'' then Inr \<lparr>header = [''Name''], psv_rows = [[''eu''], [''us'']]\<rparr>
      else if c = ''Name|kr'' then Inr \<lparr>header = [''Name''], psv_rows = [[''kr'']]\<rparr>
      else Inl ValueError)"

definition example_keg :: keg where
  "example_keg = \<lparr>remote = ''r1'', cache_dir = ''d''\<rparr>"

definition empty_db :: database where
  "empty_db = \<lparr>responses = [], tables = (\<lambda>t. None)(''cdns'' \<mapsto> [])\<rparr>"

definition same_digest_world :: keg_world where
  "same_digest_world =
     \<lparr>db = empty_db, committed = empty_db, disk_cache = (\<lambda>x. None),
      live = [Some (''D1'', 10, ''Name|eu|us''), Some (''D1'', 20, ''Name|eu|us'')],
      fetches = []\<rparr>"

definition two_digest_world :: keg_world where
  "two_digest_world =
     \<lparr>db = empty_db, committed = empty_db, disk_cache = (\<lambda>x. None),
      live = [Some (''D1'', 10, ''Name|eu|us''), Some (''D2'', 20, ''Name|kr'')],
      fetches = []\<rparr>"

definition cached_world :: keg_world where
  "cached_world =
     \<lparr>db = \<lparr>responses =
              [\<lparr>rr_remote = ''r1'', rr_path = ''/cdns'', rr_timestamp = 10, rr_digest = ''D1'',
                rr_source = 1\<rparr>,
               \<lparr>rr_remote = ''r1'', rr_path = ''/cdns'', rr_timestamp = 20, rr_digest = ''D2'',
                rr_source = 1\<rparr>,
               \<lparr>rr_remote = ''r2'', rr_path = ''/cdns'', rr_timestamp = 30, rr_digest = ''D1'',
                rr_source = 1\<rparr>],
            tables = (\<lambda>t. None)\<rparr>,
      committed = empty_db,
      disk_cache = (\<lambda>x. None)((''d'', ''/cdns'', ''D1'') \<mapsto> ''Name|eu|us'',
                               (''d'', ''/cdns'', ''D2'') \<mapsto> ''Name|kr''),
      live = [], fetches = []\<rparr>"

text \<open>The definitions that evaluating a concrete path or a concrete fetch unfolds.\<close>

lemmas path_eval = os_path_dirname_def os_path_split_def path_head_def path_tail_def
  all_slashes_def lstrip_def rstrip_def os_path_exists_def lookup_def parent_error_def

lemmas keg_eval = Keg_get_psv_def HttpBackend_get_psv_def write_to_cache_def sql_delete_def
  sql_executemany_insert_def sql_insert_response_def row_params_def tagged_row_def
  row_matches_def strip_def lstrip_def rstrip_def Let_def example_loads_def example_keg_def
  empty_db_def

section \<open>Properties of \<open>partition_hash\<close>\<close>

lemma py_slice_0_2: "py_slice s 0 2 = take 2 s"
  by (simp add: py_slice_def slice_bound_def min_def)

lemma py_slice_2_4: "py_slice s 2 4 = take 2 (drop 2 s)"
  by (auto simp add: py_slice_def slice_bound_def min_def)

lemma partition_hash_eq:
  "partition_hash h = take 2 h @ [slash] @ take 2 (drop 2 h) @ [slash] @ h"
  by (simp add: partition_hash_def py_slice_0_2 py_slice_2_4)

lemma take2_long:
  "4 \<le> length k \<Longrightarrow> take 2 k = [k ! 0, k ! 1] \<and> take 2 (drop 2 k) = [k ! 2, k ! 3]"
  by (cases k; cases "tl k"; cases "tl (tl k)"; cases "tl (tl (tl k))") auto

text \<open>
  Claim C6. For a key of at least four characters, \<open>partition_hash key\<close> is the first
  two characters, a slash, the next two characters, a slash, and the whole key. The
  function is a pure function of the key: it has no state to change and no error to
  return. (The proof does not need the characters to be hexadecimal digits.)
\<close>

theorem partition_hash_key:
  "4 \<le> length key \<Longrightarrow>
     partition_hash key = [key ! 0, key ! 1] @ ''/'' @ [key ! 2, key ! 3] @ ''/'' @ key"
  by (simp add: partition_hash_eq take2_long)

theorem partition_hash_key_witness:
  "4 \<le> length ''abcdef0123'' \<and> partition_hash ''abcdef0123'' = ''ab/cd/abcdef0123''"
  using partition_hash_key [of "''abcdef0123''"] by simp

text \<open>
  Claim C9. \<open>partition_hash\<close> returns a string for every input, with no condition on
  its length: the two slices hold the characters there are, so a key shorter than four
  characters gives shorter (possibly empty) shards, and the empty key gives \<open>//\<close>.
\<close>

theorem partition_hash_total:
  "partition_hash h = take 2 h @ ''/'' @ take 2 (drop 2 h) @ ''/'' @ h
   \<and> partition_hash [] = ''//''
   \<and> partition_hash ''a'' = ''a//a''
   \<and> partition_hash ''abc'' = ''ab/c/abc''"
  by (simp add: partition_hash_eq)

section \<open>Properties of LocalCDN\<close>

lemma lstrip_replicate: "lstrip c (replicate n c @ s) = lstrip c s"
  by (induction n) (simp_all add: lstrip_def)

lemma lstrip_not_startswith: "\<not> startswith_slash (lstrip slash s)"
  by (induction s) (simp_all add: startswith_slash_def lstrip_def)

text \<open>
  Claim C10. \<open>get_full_path\<close> joins the base directory with the path stripped of all
  its leading slashes. So any number of leading slashes makes no difference to
  \<open>get_full_path\<close>, \<open>exists\<close> and \<open>get_item\<close>; the stripped path never starts with a
  slash, so the join never discards the base directory: the result is the base directory,
  a separating slash where one is needed, and the stripped path.
\<close>

theorem get_full_path_leading_slashes:
  "get_full_path l (replicate n slash @ path) = get_full_path l path
   \<and> LocalCDN_exists l (replicate n slash @ path) files = LocalCDN_exists l path files
   \<and> LocalCDN_get_item l (replicate n slash @ path) files = LocalCDN_get_item l path files
   \<and> get_full_path l (''/'' @ path) = get_full_path l path
   \<and> \<not> startswith_slash (lstrip slash path)
   \<and> get_full_path l path =
       base_dir l @ (if base_dir l = [] \<or> endswith_slash (base_dir l) then [] else ''/'')
         @ lstrip slash path
   \<and> prefix (base_dir l) (get_full_path l path)"
proof -
  have a: "get_full_path l (replicate n slash @ path) = get_full_path l path" for n
    by (simp add: get_full_path_def lstrip_replicate)
  have b: "get_full_path l (''/'' @ path) = get_full_path l path"
    using a [of 1] by simp
  have c: "get_full_path l path =
       base_dir l @ (if base_dir l = [] \<or> endswith_slash (base_dir l) then [] else ''/'')
         @ lstrip slash path"
    by (simp add: get_full_path_def os_path_join_def lstrip_not_startswith)
  have d: "prefix (base_dir l) (get_full_path l path)"
    by (subst c) simp
  show ?thesis
    using a b c d lstrip_not_startswith
    by (simp add: LocalCDN_exists_def LocalCDN_get_item_def)
qed

theorem get_full_path_leading_slashes_witness:
  "get_full_path \<lparr>base_dir = ''c''\<rparr> ''/x'' = ''c/x''
   \<and> get_full_path \<lparr>base_dir = ''c''\<rparr> ''x'' = ''c/x''
   \<and> get_full_path \<lparr>base_dir = ''c''\<rparr> ''//x'' = ''c/x''"
proof -
  note t1 = get_full_path_leading_slashes
              [of "\<lparr>base_dir = ''c''\<rparr>" "Suc 0" "''x''" "\<lambda>p. None"]
  note t2 = get_full_path_leading_slashes
              [of "\<lparr>base_dir = ''c''\<rparr>" "Suc (Suc 0)" "''x''" "\<lambda>p. None"]
  have a: "get_full_path \<lparr>base_dir = ''c''\<rparr> ''/x'' = get_full_path \<lparr>base_dir = ''c''\<rparr> ''x''"
    using t1 by simp
  have b: "get_full_path \<lparr>base_dir = ''c''\<rparr> ''//x'' = get_full_path \<lparr>base_dir = ''c''\<rparr> ''x''"
    using t2 by simp
  have c: "get_full_path \<lparr>base_dir = ''c''\<rparr> ''x'' = ''c/x''"
    by (simp add: get_full_path_def os_path_join_def startswith_slash_def endswith_slash_def
        lstrip_def)
  show ?thesis
    using a b c by simp
qed

section \<open>Properties of RemoteCDN\<close>

text \<open>
  Claim C7. A descriptor with no server cannot be made into a RemoteCDN: the
  constructor raises (the assertion, or without assertions the subscript of the empty
  list). With at least one server the constructor takes the first, and \<open>get_item\<close>
  issues one GET, to \<open>server/cdn_path\<close> followed by the path, whatever the origin
  answers: success, a transport failure or a response without a length header. It does
  not touch the files.
\<close>

theorem RemoteCDN_first_server_one_get:
  "(all_servers cdn = [] \<longrightarrow>
      RemoteCDN_init debug cdn = Inl (if debug then AssertionError else IndexError))
   \<and> (\<forall>s rest. all_servers cdn = s # rest \<longrightarrow>
         RemoteCDN_init debug cdn = Inr \<lparr>server = s, remote_path = cdn_path cdn\<rparr>
         \<and> requests (snd (RemoteCDN_get_item net \<lparr>server = s, remote_path = cdn_path cdn\<rparr> path w))
             = requests w @ [s @ ''/'' @ cdn_path cdn @ path]
         \<and> fs (snd (RemoteCDN_get_item net \<lparr>server = s, remote_path = cdn_path cdn\<rparr> path w))
             = fs w)"
  by (auto simp add: RemoteCDN_init_def RemoteCDN_get_item_def remote_url_def Let_def
      split: option.splits)

theorem RemoteCDN_first_server_one_get_witness:
  "RemoteCDN_init True \<lparr>all_servers = [], cdn_path = ''tpr''\<rparr> = Inl AssertionError
   \<and> RemoteCDN_init False \<lparr>all_servers = [], cdn_path = ''tpr''\<rparr> = Inl IndexError
   \<and> RemoteCDN_init True \<lparr>all_servers = [''http://a'', ''http://b''], cdn_path = ''tpr''\<rparr>
       = Inr \<lparr>server = ''http://a'', remote_path = ''tpr''\<rparr>
   \<and> requests (snd (RemoteCDN_get_item example_origin
         \<lparr>server = ''http://a'', remote_path = ''tpr''\<rparr> ''/x'' empty_world))
       = [''http://a/tpr/x'']"
  using RemoteCDN_first_server_one_get
          [of "\<lparr>all_servers = [], cdn_path = ''tpr''\<rparr>" True]
        RemoteCDN_first_server_one_get
          [of "\<lparr>all_servers = [], cdn_path = ''tpr''\<rparr>" False]
        RemoteCDN_first_server_one_get
          [of "\<lparr>all_servers = [''http://a'', ''http://b''], cdn_path = ''tpr''\<rparr>" True
              example_origin "''/x''" empty_world]
  by (simp add: empty_world_def)

section \<open>Properties of the existence checks\<close>

text \<open>
  Claim C8. \<open>has_config\<close>, \<open>has_data\<close> and \<open>has_index\<close> answer whether the local
  file system has an entry at the base directory joined with \<open>config/\<close>, \<open>data/\<close> and
  \<open>data/\<close> ... \<open>.index\<close> around the partitioned key: the answer of \<open>LocalCDN.exists\<close>
  at the path the method builds. They leave the world as it was; in particular no request
  is issued.
\<close>

theorem has_checks_are_local:
  "has_config c key w =
     (os_path_exists (fs w) (os_path_join (base_dir (local_cdn c)) (''config/'' @ partition_hash key)), w)
   \<and> has_data c key w =
     (os_path_exists (fs w) (os_path_join (base_dir (local_cdn c)) (''data/'' @ partition_hash key)), w)
   \<and> has_index c key w =
     (os_path_exists (fs w)
        (os_path_join (base_dir (local_cdn c)) (''data/'' @ partition_hash key @ ''.index'')), w)
   \<and> fst (has_config c key w) = LocalCDN_exists (local_cdn c) (''/config/'' @ partition_hash key) (fs w)
   \<and> fst (has_data c key w) = LocalCDN_exists (local_cdn c) (''/data/'' @ partition_hash key) (fs w)
   \<and> fst (has_index c key w)
       = LocalCDN_exists (local_cdn c) (''/data/'' @ partition_hash key @ ''.index'') (fs w)
   \<and> requests (snd (has_config c key w)) = requests w
   \<and> requests (snd (has_data c key w)) = requests w
   \<and> requests (snd (has_index c key w)) = requests w"
  by (simp add: has_config_def has_data_def has_index_def LocalCDN_exists_def get_full_path_def
      lstrip_def)

theorem has_checks_are_local_witness:
  "has_config example_cdn ''abcd'' config_world = (True, config_world)
   \<and> has_data example_cdn ''abcd'' config_world = (False, config_world)
   \<and> has_index example_cdn ''abcd'' config_world = (False, config_world)"
  using has_checks_are_local [of example_cdn "''abcd''" config_world]
  by (simp add: example_cdn_def config_world_def os_path_exists_def lookup_def all_slashes_def
      lstrip_def os_path_join_def startswith_slash_def endswith_slash_def partition_hash_eq)

section \<open>Paths and directories\<close>

lemma all_slashes_iff: "all_slashes s \<longleftrightarrow> (\<forall>c \<in> set s. c = slash)"
  by (simp add: all_slashes_def lstrip_def dropWhile_eq_Nil_conv)

lemma head_tail_id: "path_head p @ path_tail p = p"
proof -
  have "rev (path_head p @ path_tail p) = rev p"
    by (simp add: path_head_def path_tail_def)
  then show ?thesis
    using rev_is_rev_conv by blast
qed

lemma length_rstrip_le: "length (rstrip c s) \<le> length s"
  unfolding rstrip_def using length_dropWhile_le [of "\<lambda>x. x = c" "rev s"] by simp

lemma split_parts_length:
  "length (fst (os_path_split p)) + length (snd (os_path_split p)) \<le> length p"
proof -
  have "length (path_head p) + length (path_tail p) = length p"
    using head_tail_id [of p] by (metis length_append)
  with length_rstrip_le [of slash "path_head p"] show ?thesis
    by (simp add: os_path_split_def Let_def)
qed

lemma length_dirname_le: "length (os_path_dirname p) \<le> length p"
  using split_parts_length [of p] by (simp add: os_path_dirname_def)

lemma makedirs_split_length: "length (fst (makedirs_split name)) \<le> length name"
  using split_parts_length [of name] split_parts_length [of "fst (os_path_split name)"]
  by (simp add: makedirs_split_def)

lemma path_head_last: "path_head p \<noteq> [] \<Longrightarrow> last (path_head p) = slash"
  unfolding path_head_def
  using hd_dropWhile [of "\<lambda>c. c \<noteq> slash" "rev p"]
  by (simp add: last_rev)

lemma rstrip_shorter: "s \<noteq> [] \<Longrightarrow> last s = c \<Longrightarrow> length (rstrip c s) < length s"
proof -
  assume a: "s \<noteq> []" "last s = c"
  then obtain t where t: "rev s = c # t"
    by (cases "rev s") (auto simp: last_rev [symmetric] hd_rev)
  have "length (dropWhile (\<lambda>x. x = c) t) \<le> length t"
    by (rule length_dropWhile_le)
  moreover have "length s = Suc (length t)"
    using t by (metis length_Cons length_rev)
  ultimately show ?thesis
    by (simp add: rstrip_def t)
qed

lemma dirname_shorter:
  "p \<noteq> [] \<Longrightarrow> \<not> all_slashes p \<Longrightarrow> length (os_path_dirname p) < length p"
proof -
  assume p: "p \<noteq> []" "\<not> all_slashes p"
  have le: "length (path_head p) \<le> length p"
    using head_tail_id [of p] by (metis length_append le_add1)
  show ?thesis
  proof (cases "path_head p \<noteq> [] \<and> \<not> all_slashes (path_head p)")
    case True
    then have "length (rstrip slash (path_head p)) < length (path_head p)"
      using rstrip_shorter [of "path_head p" slash] path_head_last [of p] by simp
    with le True show ?thesis
      by (simp add: os_path_dirname_def os_path_split_def Let_def)
  next
    case False
    then have d: "os_path_dirname p = path_head p"
      by (auto simp add: os_path_dirname_def os_path_split_def Let_def)
    have "path_head p \<noteq> p"
      using False p by auto
    then have "path_tail p \<noteq> []"
      using head_tail_id [of p] by auto
    then have "length (path_head p) < length p"
      using head_tail_id [of p] by (metis length_append length_greater_0_conv less_add_same_cancel1)
    with d show ?thesis by simp
  qed
qed

lemma dirname_append_suffix:
  "slash \<notin> set s \<Longrightarrow> os_path_dirname (p @ s) = os_path_dirname p"
proof -
  assume "slash \<notin> set s"
  then have "dropWhile (\<lambda>c. c \<noteq> slash) (rev s @ rev p) = dropWhile (\<lambda>c. c \<noteq> slash) (rev p)"
    by (intro dropWhile_append2) auto
  then have "path_head (p @ s) = path_head p"
    by (simp add: path_head_def)
  then show ?thesis
    by (simp add: os_path_dirname_def os_path_split_def Let_def)
qed

lemma dirname_temp: "os_path_dirname (p @ ''.keg_temp'') = os_path_dirname p"
  by (rule dirname_append_suffix) simp

lemma lookup_temp: "lookup files (p @ ''.keg_temp'') = files (p @ ''.keg_temp'')"
  by (simp add: lookup_def all_slashes_iff)

lemma parent_error_temp: "parent_error files (p @ ''.keg_temp'') = parent_error files p"
  by (simp add: parent_error_def dirname_temp)

lemma mkdir_frame: "os_mkdir name files = (r, files') \<Longrightarrow> q \<noteq> name \<Longrightarrow> files' q = files q"
  by (auto simp add: os_mkdir_def split: if_splits option.splits)

lemma makedirs_frame:
  "os_makedirs name files = (r, files') \<Longrightarrow> length name < length q \<Longrightarrow> files' q = files q"
proof (induction name files arbitrary: r files' rule: os_makedirs.induct)
  case (1 name files)
  let ?h = "fst (makedirs_split name)"
  let ?t = "snd (makedirs_split name)"
  show ?case
  proof (cases "?h \<noteq> [] \<and> ?t \<noteq> [] \<and> \<not> os_path_exists files ?h")
    case False
    then have "os_mkdir name files = (r, files')"
      using "1.prems"(1) by (subst (asm) os_makedirs.simps) auto
    then show ?thesis
      using mkdir_frame "1.prems"(2) by (metis less_irrefl)
  next
    case True
    obtain r1 f1 where rec: "os_makedirs ?h files = (r1, f1)"
      by (cases "os_makedirs ?h files")
    have "length ?h < length q"
      using makedirs_split_length [of name] "1.prems"(2) by simp
    with "1.IH" [OF True rec] have f1: "f1 q = files q"
      by simp
    have "files' = f1 \<or> os_mkdir name f1 = (r, files')"
      using "1.prems"(1) True rec
      by (subst (asm) os_makedirs.simps) (auto split: sum.splits if_splits)
    then show ?thesis
      using f1 mkdir_frame "1.prems"(2) by (metis less_irrefl)
  qed
qed

lemma dirname_neq_temp: "os_path_dirname p \<noteq> p @ ''.keg_temp''"
proof
  assume "os_path_dirname p = p @ ''.keg_temp''"
  then have "length (os_path_dirname p) = length p + 9"
    by simp
  with length_dirname_le [of p] show False
    by simp
qed

lemma parent_error_frame:
  "files' (os_path_dirname p) = files (os_path_dirname p) \<Longrightarrow>
     parent_error files' p = parent_error files p"
  by (simp add: parent_error_def lookup_def Let_def)

lemma lookup_frame: "files' p = files p \<Longrightarrow> lookup files' p = lookup files p"
  by (simp add: lookup_def)

lemma makedirs_split_empty: "makedirs_split [] = ([], [])"
  by (simp add: makedirs_split_def os_path_split_def path_head_def path_tail_def)

lemma makedirs_empty: "os_makedirs [] files = (Inl FileNotFoundError, files)"
  by (subst os_makedirs.simps) (simp add: makedirs_split_empty os_mkdir_def)

lemma dirname_empty: "os_path_dirname [] = []"
  by (simp add: os_path_dirname_def os_path_split_def path_head_def)

section \<open>Properties of HTTPCacheWrapper\<close>

lemma init_cases:
  assumes "HTTPCacheWrapper_init ob path files0 = (Inr h, files1)"
  obtains fm f where
    "(if \<not> os_path_exists files0 (os_path_dirname path)
      then os_makedirs (os_path_dirname path) files0 else (Inr (), files0)) = (Inr (), fm)"
    "open_wb (path @ ''.keg_temp'') fm = (Inr f, files1)"
    "h = \<lparr>obj = ob, real_path = path, temp_path = path @ ''.keg_temp'', cache_file = f\<rparr>"
proof -
  obtain r0 fm where m: "(if \<not> os_path_exists files0 (os_path_dirname path)
      then os_makedirs (os_path_dirname path) files0 else (Inr (), files0)) = (r0, fm)"
    by (cases "(if \<not> os_path_exists files0 (os_path_dirname path)
      then os_makedirs (os_path_dirname path) files0 else (Inr (), files0))")
  obtain r1 f1 where ow: "open_wb (path @ ''.keg_temp'') fm = (r1, f1)"
    by (cases "open_wb (path @ ''.keg_temp'') fm")
  from assms have a: "(case r0 of Inl e \<Rightarrow> (Inl e, fm)
     | Inr _ \<Rightarrow> (case open_wb (path @ ''.keg_temp'') fm of
          (Inl e, files2) \<Rightarrow> (Inl e, files2)
        | (Inr f, files2) \<Rightarrow>
            (Inr \<lparr>obj = ob, real_path = path, temp_path = path @ ''.keg_temp'',
              cache_file = f\<rparr>, files2))) = (Inr h, files1)"
    unfolding HTTPCacheWrapper_init_def Let_def m by simp
  then obtain u where r0: "r0 = Inr u"
    by (cases r0) auto
  from a r0 ow obtain f where r1: "r1 = Inr f"
    by (cases r1) auto
  from a r0 r1 ow have "h = \<lparr>obj = ob, real_path = path, temp_path = path @ ''.keg_temp'',
      cache_file = f\<rparr>" "f1 = files1"
    by auto
  with m ow r0 r1 that show thesis
    by simp
qed

lemma open_wb_ok:
  "open_wb p fm = (Inr f, files1) \<Longrightarrow>
     parent_error fm p = None \<and> files1 = fm(p \<mapsto> File [])
     \<and> f = \<lparr>fh_path = p, fh_closed = False\<rparr>"
  by (cases "parent_error fm p") (auto simp add: open_wb_def split: if_splits)

lemma init_state:
  assumes "HTTPCacheWrapper_init ob path files0 = (Inr h, files1)"
  shows "tee_state (pending ob) h files1 \<and> obj h = ob \<and> real_path h = path
         \<and> temp_path h = path @ ''.keg_temp''
         \<and> lookup files1 path = lookup files0 path
         \<and> parent_error files1 path = None \<and> path \<noteq> []"
proof -
  let ?d = "os_path_dirname path"
  let ?t = "path @ ''.keg_temp''"
  from assms obtain fm f where made:
    "(if \<not> os_path_exists files0 ?d then os_makedirs ?d files0 else (Inr (), files0)) = (Inr (), fm)"
    and opened: "open_wb ?t fm = (Inr f, files1)"
    and h: "h = \<lparr>obj = ob, real_path = path, temp_path = ?t, cache_file = f\<rparr>"
    by (rule init_cases)
  from open_wb_ok [OF opened]
  have pe: "parent_error fm ?t = None" and f1: "files1 = fm(?t \<mapsto> File [])"
    and cf: "f = \<lparr>fh_path = ?t, fh_closed = False\<rparr>"
    by simp_all
  have ne: "path \<noteq> []"
  proof
    assume e: "path = []"
    with made show False
      by (simp add: dirname_empty os_path_exists_def lookup_def makedirs_empty)
  qed
  have keep: "lookup fm path = lookup files0 path"
  proof (cases "os_path_exists files0 ?d")
    case True
    then show ?thesis using made by simp
  next
    case False
    then have mk: "os_makedirs ?d files0 = (Inr (), fm)"
      using made by simp
    show ?thesis
    proof (cases "all_slashes path")
      case True
      then show ?thesis using ne by (simp add: lookup_def)
    next
      case False
      then have "length ?d < length path"
        using ne dirname_shorter by blast
      then have "fm path = files0 path"
        using makedirs_frame [OF mk] by blast
      then show ?thesis by (rule lookup_frame)
    qed
  qed
  have "files1 path = fm path"
    using f1 by simp
  then have "lookup files1 path = lookup fm path"
    by (rule lookup_frame)
  with keep have l1: "lookup files1 path = lookup files0 path"
    by simp
  have "files1 ?d = fm ?d"
    using f1 dirname_neq_temp [of path] by simp
  then have "parent_error files1 path = parent_error fm path"
    by (rule parent_error_frame)
  then have p1: "parent_error files1 path = None"
    using pe by (simp add: parent_error_temp)
  have "tee_state (pending ob) h files1"
    by (simp add: tee_state_def h cf f1)
  then show ?thesis
    using l1 p1 ne by (simp add: h)
qed

lemma stream_read_all_cases:
  "stream_read_all s = (r, s') \<Longrightarrow>
     broken s' = broken s \<and> closed s' = closed s
     \<and> (case r of
           Inl e \<Rightarrow> closed s \<or> broken s
         | Inr ret \<Rightarrow> \<not> closed s \<and> \<not> broken s \<and> ret @ pending s' = pending s \<and> pending s' = [])"
  by (auto simp add: stream_read_all_def split: if_splits)

lemma stream_read_cases:
  "stream_read n s = (r, s') \<Longrightarrow>
     broken s' = broken s \<and> closed s' = closed s
     \<and> (case r of
           Inl e \<Rightarrow> closed s \<or> broken s
         | Inr ret \<Rightarrow> \<not> closed s \<and> ret @ pending s' = pending s)"
  by (auto simp add: stream_read_def stream_read_all_def split: if_splits)

lemma upstream_read_cases:
  "(if n = - 1 then stream_read_all s else stream_read n s) = (r, s') \<Longrightarrow>
     broken s' = broken s \<and> closed s' = closed s
     \<and> (case r of
           Inl e \<Rightarrow> closed s \<or> broken s
         | Inr ret \<Rightarrow> \<not> closed s \<and> ret @ pending s' = pending s)"
  using stream_read_all_cases [of s r s'] stream_read_cases [of n s r s']
  by (cases r) (auto split: if_splits)

lemma read_unfold:
  assumes "(if n = - 1 then stream_read_all (obj h) else stream_read n (obj h)) = (r0, s')"
  shows "HTTPCacheWrapper_read h n files =
     (case r0 of
        Inl e \<Rightarrow> (Inl e, h\<lparr>obj := s'\<rparr>, files)
      | Inr ret \<Rightarrow>
          if ret \<noteq> [] then
            (case file_write (cache_file h) ret files of
               (Inl e, files') \<Rightarrow> (Inl e, h\<lparr>obj := s'\<rparr>, files')
             | (Inr _, files') \<Rightarrow> (Inr ret, h\<lparr>obj := s'\<rparr>, files'))
          else (Inr ret, h\<lparr>obj := s'\<rparr>, files))"
  unfolding HTTPCacheWrapper_read_def assms by simp

lemma read_step:
  assumes rd: "HTTPCacheWrapper_read h n files = (r, h', files')"
    and inv: "tee_state data h files"
  shows "tee_state data h' files' \<and> real_path h' = real_path h \<and> temp_path h' = temp_path h
         \<and> broken (obj h') = broken (obj h) \<and> closed (obj h') = closed (obj h)
         \<and> (\<forall>q. q \<noteq> temp_path h \<longrightarrow> files' q = files q)
         \<and> (r, obj h') = (if n = - 1 then stream_read_all (obj h) else stream_read n (obj h))
         \<and> (\<exists>w. files (temp_path h) = Some (File w)
               \<and> files' (temp_path h) = Some (File (w @ (case r of Inl e \<Rightarrow> [] | Inr ret \<Rightarrow> ret))))"
proof -
  obtain r0 s' where up:
    "(if n = - 1 then stream_read_all (obj h) else stream_read n (obj h)) = (r0, s')"
    by (cases "(if n = - 1 then stream_read_all (obj h) else stream_read n (obj h))")
  note uc = upstream_read_cases [OF up]
  from inv obtain w where cf: "cache_file h = \<lparr>fh_path = temp_path h, fh_closed = False\<rparr>"
    and tp: "temp_path h = real_path h @ ''.keg_temp''"
    and w: "files (temp_path h) = Some (File w)"
    and dat: "broken (obj h) \<or> w @ pending (obj h) = data"
    by (auto simp add: tee_state_def)
  show ?thesis
  proof (cases r0)
    case (Inl e)
    then have res: "r = Inl e" "h' = h\<lparr>obj := s'\<rparr>" "files' = files"
      using rd read_unfold [OF up, of files] by simp_all
    have "broken s' \<or> w @ pending s' = data"
    proof (cases "broken (obj h)")
      case True
      then show ?thesis using uc by simp
    next
      case False
      then have c: "closed (obj h)"
        using uc Inl by simp
      have "s' = obj h"
        using up c by (auto simp add: stream_read_all_def stream_read_def split: if_splits)
      then show ?thesis using dat by simp
    qed
    then have "tee_state data h' files'"
      using cf tp w by (simp add: tee_state_def res)
    then show ?thesis
      using uc w up by (simp add: res Inl)
  next
    case (Inr ret)
    have app: "ret @ pending s' = pending (obj h)" and bs: "broken s' = broken (obj h)"
      using uc Inr by simp_all
    have fw: "file_write (cache_file h) ret files = (Inr (), files(temp_path h \<mapsto> File (w @ ret)))"
      by (simp add: file_write_def cf w)
    have res: "r = Inr ret" "h' = h\<lparr>obj := s'\<rparr>"
        "files' = (if ret \<noteq> [] then files(temp_path h \<mapsto> File (w @ ret)) else files)"
      using rd read_unfold [OF up, of files] Inr fw by (simp_all split: if_splits)
    have w': "files' (temp_path h) = Some (File (w @ ret))"
      using res w by simp
    have "broken s' \<or> (w @ ret) @ pending s' = data"
      using dat app bs by auto
    then have "tee_state data h' files'"
      using cf tp w' unfolding tee_state_def by (simp add: res)
    moreover have "\<forall>q. q \<noteq> temp_path h \<longrightarrow> files' q = files q"
      by (simp add: res)
    ultimately show ?thesis
      using uc w w' up by (simp add: res(1,2) Inr)
  qed
qed


lemma tee_state_temp:
  "tee_state data h files \<Longrightarrow> temp_path h \<noteq> real_path h
     \<and> real_path h \<noteq> temp_path h
     \<and> os_path_dirname (real_path h) \<noteq> temp_path h
     \<and> lookup files (temp_path h) = files (temp_path h)"
  using dirname_neq_temp [of "real_path h"] lookup_temp [of files "real_path h"]
  by (simp add: tee_state_def)

lemma rename_cases:
  assumes "os_rename src dst files = (r, files')" and "lookup files src = Some (File w)"
  shows "(case r of
            Inl e \<Rightarrow> files' = files
          | Inr _ \<Rightarrow> files' = files(src := None, dst := Some (File w)) \<and> dst \<noteq> []
                     \<and> lookup files dst \<noteq> Some Dir)"
proof (cases "dst = []")
  case True
  then show ?thesis using assms by (auto simp add: os_rename_def)
next
  case False
  show ?thesis
  proof (cases "parent_error files dst")
    case (Some e)
    then show ?thesis using assms False by (auto simp add: os_rename_def)
  next
    case None
    show ?thesis
    proof (cases "lookup files dst = Some Dir")
      case True
      then show ?thesis using assms False None by (auto simp add: os_rename_def)
    next
      case nd: False
      then have "os_rename src dst files = (Inr (), files(src := None, dst := Some (File w)))"
        using assms(2) False None
        by (cases "lookup files dst") (auto simp add: os_rename_def split: node.splits)
      then show ?thesis using assms(1) nd False by auto
    qed
  qed
qed


lemma close_unfold:
  assumes "HTTPCacheWrapper_read h (- 1) files = (r1, h1, files1)"
  shows "HTTPCacheWrapper_close h files =
     (case r1 of
        Inl e \<Rightarrow> (Inl e, h1, files1)
      | Inr _ \<Rightarrow>
          (case os_rename (temp_path h1) (real_path h1) files1 of
             (Inl e, files2) \<Rightarrow> (Inl e, h1\<lparr>cache_file := file_close (cache_file h1)\<rparr>, files2)
           | (Inr _, files2) \<Rightarrow>
               (Inr (), h1\<lparr>cache_file := file_close (cache_file h1),
                           obj := stream_close (obj h1)\<rparr>, files2)))"
  unfolding HTTPCacheWrapper_close_def assms
  by (cases r1) (simp_all add: Let_def split: prod.splits sum.splits)

lemma close_result:
  assumes inv: "tee_state data h files"
    and cl: "HTTPCacheWrapper_close h files = (r, h', files')"
  shows "(\<forall>q. q \<noteq> temp_path h \<and> q \<noteq> real_path h \<longrightarrow> files' q = files q)
     \<and> (case r of
           Inl e \<Rightarrow> files' (real_path h) = files (real_path h)
                     \<and> (\<exists>w. files' (temp_path h) = Some (File w))
         | Inr _ \<Rightarrow> \<not> broken (obj h) \<and> \<not> closed (obj h)
                     \<and> lookup files' (real_path h) = Some (File data)
                     \<and> files' (temp_path h) = None
                     \<and> closed (obj h') \<and> fh_closed (cache_file h'))"
proof -
  obtain r1 h1 files1 where rd: "HTTPCacheWrapper_read h (- 1) files = (r1, h1, files1)"
    by (cases "HTTPCacheWrapper_read h (- 1) files") auto
  note s1 = read_step [OF rd inv]
  note cu = close_unfold [OF rd, unfolded cl]
  from s1 have inv1: "tee_state data h1 files1" and rp: "real_path h1 = real_path h"
    and tp: "temp_path h1 = temp_path h" and fr: "\<forall>q. q \<noteq> temp_path h \<longrightarrow> files1 q = files q"
    by simp_all
  note tt = tee_state_temp [OF inv]
  from inv1 obtain w where w: "files1 (temp_path h) = Some (File w)"
    and dat: "broken (obj h1) \<or> w @ pending (obj h1) = data"
    by (auto simp add: tee_state_def tp)
  show ?thesis
  proof (cases r1)
    case (Inl e)
    then have "r = Inl e" "files' = files1"
      using cu by simp_all
    then show ?thesis
      using fr w tt by simp
  next
    case (Inr ret)
    have up: "(Inr ret, obj h1) = stream_read_all (obj h)"
      using s1 Inr by simp
    then have st: "\<not> closed (obj h)" "\<not> broken (obj h)" "pending (obj h1) = []"
        "broken (obj h1) = broken (obj h)"
      using stream_read_all_cases [of "obj h" "Inr ret" "obj h1"] by simp_all
    then have wd: "w = data"
      using dat by simp
    have lw: "lookup files1 (temp_path h) = Some (File w)"
      using w tt lookup_frame [of files1 "temp_path h" files] tee_state_temp [OF inv1] tp by simp
    obtain r2 files2 where rn: "os_rename (temp_path h) (real_path h) files1 = (r2, files2)"
      by (cases "os_rename (temp_path h) (real_path h) files1")
    note rc = rename_cases [OF rn lw]
    show ?thesis
    proof (cases r2)
      case (Inl e)
      then have "r = Inl e" "files' = files1"
        using cu Inr rn rc by (simp_all add: rp tp)
      then show ?thesis
        using fr w tt by simp
    next
      case r2: (Inr u)
      then have res: "r = Inr ()"
          "h' = h1\<lparr>cache_file := file_close (cache_file h1), obj := stream_close (obj h1)\<rparr>"
          "files' = files1(temp_path h := None, real_path h := Some (File w))"
        using cu Inr rn rc by (simp_all add: rp tp)
      have ne: "real_path h \<noteq> []" and nd: "lookup files1 (real_path h) \<noteq> Some Dir"
        using rc r2 by simp_all
      then have "\<not> all_slashes (real_path h)"
        by (auto simp add: lookup_def)
      then have "lookup files' (real_path h) = Some (File data)"
        using ne wd by (simp add: lookup_def res)
      moreover have "files' (temp_path h) = None"
        using tt by (simp add: res)
      moreover have "closed (obj h')" "fh_closed (cache_file h')"
        by (simp_all add: res stream_close_def file_close_def)
      moreover have "\<forall>q. q \<noteq> temp_path h \<and> q \<noteq> real_path h \<longrightarrow> files' q = files q"
        using fr by (simp add: res)
      ultimately show ?thesis
        using st by (simp add: res(1))
    qed
  qed
qed



lemma example_init:
  "HTTPCacheWrapper_init ob ''c/x'' cache_files = (Inr (fresh_wrapper ob), fresh_files)"
  by (simp add: HTTPCacheWrapper_init_def open_wb_def cache_files_def fresh_wrapper_def
      fresh_files_def path_eval Let_def)








section \<open>Properties of \<open>CacheableCDNWrapper.get_item\<close>\<close>

lemma open_rb_Inr:
  "open_rb p files = Inr s \<Longrightarrow>
     lookup files p = Some (File (pending s)) \<and> s = \<lparr>pending = pending s, broken = False, closed = False\<rparr>"
  by (auto simp add: open_rb_def split: option.splits node.splits)

lemma remote_get_cases:
  "RemoteCDN_get_item net r path w = (res, w1) \<Longrightarrow>
     w1 = w\<lparr>requests := requests w @ [remote_url r path]\<rparr>
     \<and> (\<forall>body. res = Inr body \<longrightarrow> (\<exists>resp. net (remote_url r path) = Some resp \<and> body = raw resp))"
  by (auto simp add: RemoteCDN_get_item_def Let_def split: option.splits)

lemma get_item_hit:
  "LocalCDN_exists (local_cdn c) path (fs w) \<Longrightarrow>
     CacheableCDNWrapper_get_item net c path w = (LocalCDN_get_item (local_cdn c) path (fs w), w)"
  by (simp add: CacheableCDNWrapper_get_item_def)

lemma get_item_miss:
  assumes miss: "\<not> LocalCDN_exists (local_cdn c) path (fs w)"
    and res: "CacheableCDNWrapper_get_item net c path w = (Inr s1, w1)"
  shows "\<exists>resp. net (remote_url (remote_cdn c) path) = Some resp
           \<and> pending s1 = pending (raw resp) \<and> \<not> broken (raw resp)
           \<and> requests w1 = requests w @ [remote_url (remote_cdn c) path]
           \<and> LocalCDN_get_item (local_cdn c) path (fs w1) = Inr s1"
proof -
  let ?p = "get_full_path (local_cdn c) path"
  obtain r0 w0 where g: "RemoteCDN_get_item net (remote_cdn c) path w = (r0, w0)"
    by (cases "RemoteCDN_get_item net (remote_cdn c) path w")
  note rg = remote_get_cases [OF g]
  from res miss g obtain body where r0: "r0 = Inr body"
    by (cases r0) (auto simp add: CacheableCDNWrapper_get_item_def Let_def)
  obtain ri f2 where i: "HTTPCacheWrapper_init body ?p (fs w0) = (ri, f2)"
    by (cases "HTTPCacheWrapper_init body ?p (fs w0)")
  from res miss g r0 i obtain h where ri: "ri = Inr h"
    by (cases ri) (auto simp add: CacheableCDNWrapper_get_item_def Let_def)
  obtain rc h3 f3 where cl: "HTTPCacheWrapper_close h f2 = (rc, h3, f3)"
    by (cases "HTTPCacheWrapper_close h f2") auto
  from res miss g r0 i ri cl have rc: "rc = Inr ()"
    by (cases rc) (auto simp add: CacheableCDNWrapper_get_item_def Let_def)
  from res miss g r0 i ri cl rc
  have out: "LocalCDN_get_item (local_cdn c) path f3 = Inr s1" "w1 = w0\<lparr>fs := f3\<rparr>"
    by (auto simp add: CacheableCDNWrapper_get_item_def Let_def)
  note st = init_state [OF i [unfolded ri]]
  then have inv: "tee_state (pending body) h f2" and rp: "real_path h = ?p" and ob: "obj h = body"
    by simp_all
  note c = close_result [OF inv cl, unfolded rp ob]
  with rc have full: "lookup f3 ?p = Some (File (pending body))" and nb: "\<not> broken body"
    by simp_all
  from out(1) have "lookup f3 ?p = Some (File (pending s1))"
    using open_rb_Inr by (simp add: LocalCDN_get_item_def)
  with full have "pending s1 = pending body"
    by simp
  moreover from rg r0 obtain resp where "net (remote_url (remote_cdn c) path) = Some resp"
    "body = raw resp"
    by auto
  ultimately show ?thesis
    using rg nb out by auto
qed

lemma example_url: "remote_url example_remote ''/x'' = ''http://a/tpr/x''"
  by (simp add: remote_url_def example_remote_def)

lemma example_full_path: "get_full_path \<lparr>base_dir = ''c''\<rparr> ''/x'' = ''c/x''"
  by (simp add: get_full_path_def os_path_join_def startswith_slash_def endswith_slash_def
      lstrip_def)

lemma example_remote_get:
  "RemoteCDN_get_item example_origin example_remote ''/x'' cold_world
     = (Inr good_body, cold_world\<lparr>requests := [''http://a/tpr/x'']\<rparr>)"
  by (simp add: RemoteCDN_get_item_def example_url example_origin_def cold_world_def good_body_def)

lemma example_close_full:
  "HTTPCacheWrapper_close (fresh_wrapper good_body) fresh_files
     = (Inr (),
        (fresh_wrapper good_body)
          \<lparr>obj := \<lparr>pending = [], broken = False, closed = True\<rparr>,
           cache_file := \<lparr>fh_path = ''c/x.keg_temp'', fh_closed = True\<rparr>\<rparr>,
        fresh_files(''c/x.keg_temp'' := None, ''c/x'' := Some (File [1, 2, 3])))"
  by (simp add: HTTPCacheWrapper_close_def HTTPCacheWrapper_read_def stream_read_all_def
      fresh_wrapper_def fresh_files_def file_write_def file_close_def stream_close_def
      os_rename_def cache_files_def good_body_def path_eval Let_def)

lemma cold_first:
  "fst (CacheableCDNWrapper_get_item example_origin example_cdn ''/x'' cold_world)
     = Inr \<lparr>pending = [1, 2, 3], broken = False, closed = False\<rparr>"
proof -
  have miss: "\<not> LocalCDN_exists \<lparr>base_dir = ''c''\<rparr> ''/x'' (fs cold_world)"
    by (simp add: LocalCDN_exists_def example_full_path cold_world_def cache_files_def path_eval)
  have i: "HTTPCacheWrapper_init good_body ''c/x'' (fs cold_world)
      = (Inr (fresh_wrapper good_body), fresh_files)"
    using example_init [of good_body] by (simp add: cold_world_def)
  have rd: "LocalCDN_get_item \<lparr>base_dir = ''c''\<rparr> ''/x''
        (fresh_files(''c/x.keg_temp'' := None, ''c/x'' := Some (File [1, 2, 3])))
      = Inr \<lparr>pending = [1, 2, 3], broken = False, closed = False\<rparr>"
    by (simp add: LocalCDN_get_item_def example_full_path open_rb_def path_eval)
  show ?thesis
    using miss
    by (simp add: CacheableCDNWrapper_get_item_def example_cdn_def example_full_path
        example_remote_get i example_close_full rd)
qed

text \<open>
  Claim C3, as amended. If a call of \<open>get_item\<close> returns, the next call for the same
  path returns the same content and leaves the world as it is: it fetches nothing. The
  first call issues exactly one GET when the path is not in the local cache, and the
  content is then the body of that response; it issues none when the path is already
  cached. So the two calls together make at most one remote fetch: one on a miss, none
  on a hit.
\<close>

theorem get_item_twice:
  assumes first: "CacheableCDNWrapper_get_item net c path w = (Inr s1, w1)"
  shows "CacheableCDNWrapper_get_item net c path w1 = (Inr s1, w1)
     \<and> lookup (fs w1) (get_full_path (local_cdn c) path) = Some (File (pending s1))
     \<and> requests w1 = requests w @
          (if LocalCDN_exists (local_cdn c) path (fs w) then [] else [remote_url (remote_cdn c) path])
     \<and> (\<not> LocalCDN_exists (local_cdn c) path (fs w) \<longrightarrow>
          (\<exists>resp. net (remote_url (remote_cdn c) path) = Some resp
             \<and> pending s1 = pending (raw resp)))"
proof -
  have both: "LocalCDN_get_item (local_cdn c) path (fs w1) = Inr s1
     \<and> requests w1 = requests w @
          (if LocalCDN_exists (local_cdn c) path (fs w) then [] else [remote_url (remote_cdn c) path])
     \<and> (\<not> LocalCDN_exists (local_cdn c) path (fs w) \<longrightarrow>
          (\<exists>resp. net (remote_url (remote_cdn c) path) = Some resp
             \<and> pending s1 = pending (raw resp)))"
  proof (cases "LocalCDN_exists (local_cdn c) path (fs w)")
    case True
    with first get_item_hit [OF True, of net] show ?thesis
      by auto
  next
    case False
    with get_item_miss [OF False first] show ?thesis
      by auto
  qed
  then have loc: "LocalCDN_get_item (local_cdn c) path (fs w1) = Inr s1"
    by simp
  then have lk: "lookup (fs w1) (get_full_path (local_cdn c) path) = Some (File (pending s1))"
    using open_rb_Inr by (simp add: LocalCDN_get_item_def)
  then have "LocalCDN_exists (local_cdn c) path (fs w1)"
    by (simp add: LocalCDN_exists_def os_path_exists_def)
  then have "CacheableCDNWrapper_get_item net c path w1 = (Inr s1, w1)"
    using get_item_hit loc by simp
  with lk both show ?thesis
    by simp
qed

theorem get_item_twice_witness:
  "fst (CacheableCDNWrapper_get_item example_origin example_cdn ''/x'' cold_world)
     = Inr \<lparr>pending = [1, 2, 3], broken = False, closed = False\<rparr>
   \<and> fst (CacheableCDNWrapper_get_item example_origin example_cdn ''/x''
        (snd (CacheableCDNWrapper_get_item example_origin example_cdn ''/x'' cold_world)))
     = Inr \<lparr>pending = [1, 2, 3], broken = False, closed = False\<rparr>
   \<and> requests (snd (CacheableCDNWrapper_get_item example_origin example_cdn ''/x''
        (snd (CacheableCDNWrapper_get_item example_origin example_cdn ''/x'' cold_world))))
     = [''http://a/tpr/x'']"
proof -
  obtain r w1 where g: "CacheableCDNWrapper_get_item example_origin example_cdn ''/x'' cold_world
      = (r, w1)"
    by (cases "CacheableCDNWrapper_get_item example_origin example_cdn ''/x'' cold_world")
  with cold_first have r: "r = Inr \<lparr>pending = [1, 2, 3], broken = False, closed = False\<rparr>"
    by simp
  have miss: "\<not> LocalCDN_exists (local_cdn example_cdn) ''/x'' (fs cold_world)"
    by (simp add: LocalCDN_exists_def example_cdn_def example_full_path cold_world_def
        cache_files_def path_eval)
  from get_item_twice [OF g [unfolded r]] miss
  have "CacheableCDNWrapper_get_item example_origin example_cdn ''/x'' w1
      = (Inr \<lparr>pending = [1, 2, 3], broken = False, closed = False\<rparr>, w1)"
    and "requests w1 = [''http://a/tpr/x'']"
    by (simp_all add: example_cdn_def example_url cold_world_def)
  then show ?thesis
    using g r by simp
qed

text \<open>
  Claim C3 as stated (exactly one remote fetch across the two calls, for every path)
  fails for a path that is already in the local cache: both calls return the cached
  bytes and no request is made.
\<close>

theorem get_item_twice_counterexample:
  "fst (CacheableCDNWrapper_get_item example_origin example_cdn ''/x'' warm_world)
     = Inr \<lparr>pending = [1, 2, 3], broken = False, closed = False\<rparr>
   \<and> fst (CacheableCDNWrapper_get_item example_origin example_cdn ''/x''
        (snd (CacheableCDNWrapper_get_item example_origin example_cdn ''/x'' warm_world)))
     = Inr \<lparr>pending = [1, 2, 3], broken = False, closed = False\<rparr>
   \<and> requests warm_world = []
   \<and> requests (snd (CacheableCDNWrapper_get_item example_origin example_cdn ''/x''
        (snd (CacheableCDNWrapper_get_item example_origin example_cdn ''/x'' warm_world))))
     = []
   \<and> length (requests (snd (CacheableCDNWrapper_get_item example_origin example_cdn ''/x''
        (snd (CacheableCDNWrapper_get_item example_origin example_cdn ''/x'' warm_world)))))
     \<noteq> length (requests warm_world) + 1"
proof -
  have hit: "LocalCDN_exists (local_cdn example_cdn) ''/x'' (fs warm_world)"
    by (simp add: LocalCDN_exists_def example_cdn_def example_full_path warm_world_def
        cache_files_def path_eval)
  have g: "CacheableCDNWrapper_get_item example_origin example_cdn ''/x'' warm_world
      = (Inr \<lparr>pending = [1, 2, 3], broken = False, closed = False\<rparr>, warm_world)"
    using get_item_hit [OF hit, of example_origin]
    by (simp add: LocalCDN_get_item_def example_cdn_def example_full_path warm_world_def
        open_rb_def cache_files_def path_eval)
  show ?thesis
    by (simp add: g) (simp add: warm_world_def)
qed

section \<open>Properties of \<open>Keg.get_psv\<close>\<close>

lemma insert_each_ok:
  "insert_each hdr ps rows = (Inr (), rows') \<Longrightarrow> rows' = rows @ map (tagged_row hdr) ps"
proof (induction ps arbitrary: rows)
  case Nil
  then show ?case by simp
next
  case (Cons p ps)
  from Cons.prems have "insert_each hdr ps (rows @ [tagged_row hdr p]) = (Inr (), rows')"
    by (simp split: if_splits)
  from Cons.IH [OF this] show ?case
    by simp
qed

lemma fetched_rows_match: "r \<in> set (fetched_rows rem p resp) \<Longrightarrow>
    tr_remote r = rem \<and> tr_key r = digest resp"
  by (auto simp add: fetched_rows_def row_params_def tagged_row_def)

lemma rows_of_fetched_same: "rows_of rem (digest resp) (fetched_rows rem p resp) = fetched_rows rem p resp"
  unfolding rows_of_def using fetched_rows_match [of _ rem p resp]
  by (simp add: row_matches_def)

lemma rows_of_fetched_other:
  "(rem', key) \<noteq> (rem, digest resp) \<Longrightarrow> rows_of rem' key (fetched_rows rem p resp) = []"
  unfolding rows_of_def using fetched_rows_match [of _ rem p resp]
  by (auto simp add: row_matches_def filter_empty_conv)

lemma rows_of_deleted_same:
  "rows_of rem key (filter (\<lambda>r. \<not> row_matches rem key r) rows) = []"
  by (simp add: rows_of_def filter_empty_conv)

lemma rows_of_deleted_other:
  "(rem', key') \<noteq> (rem, key) \<Longrightarrow>
     rows_of rem' key' (filter (\<lambda>r. \<not> row_matches rem key r) rows) = rows_of rem' key' rows"
  unfolding rows_of_def by (induction rows) (auto simp add: row_matches_def)

lemma rows_of_append: "rows_of rem key (xs @ ys) = rows_of rem key xs @ rows_of rem key ys"
  by (simp add: rows_of_def)

lemma http_get_psv_cases:
  "HttpBackend_get_psv loads rem path w = (res, w1) \<Longrightarrow>
     fetches w1 = fetches w @ [(rem, path)] \<and> db w1 = db w \<and> committed w1 = committed w
     \<and> disk_cache w1 = disk_cache w
     \<and> (\<forall>p r. res = Inr (p, r) \<longrightarrow> resp_path r = path)"
  by (auto simp add: HttpBackend_get_psv_def Let_def split: list.splits option.splits sum.splits)

lemma get_psv_success:
  assumes "Keg_get_psv loads k path w = (Inr (p, r), w')"
  shows "\<exists>rows. tables (db w) (strip slash path) = Some rows
     \<and> tables (db w') = (tables (db w))(strip slash path \<mapsto>
          filter (\<lambda>x. \<not> row_matches (remote k) (digest r) x) rows @ fetched_rows (remote k) p r)
     \<and> responses (db w') = responses (db w) @ [response_record (remote k) path r]
     \<and> committed w' = db w'
     \<and> fetches w' = fetches w @ [(remote k, path)]
     \<and> disk_cache w' = (disk_cache w)((cache_dir k, path, digest r) \<mapsto> content r)
     \<and> header p \<noteq> []"
proof -
  let ?t = "strip slash path"
  obtain r0 w1 where g: "HttpBackend_get_psv loads (remote k) path w = (r0, w1)"
    by (cases "HttpBackend_get_psv loads (remote k) path w")
  note hc = http_get_psv_cases [OF g]
  from assms g have r0: "r0 = Inr (p, r)"
    by (cases r0) (auto simp add: Keg_get_psv_def Let_def split: sum.splits prod.splits)
  define w2 where "w2 = write_to_cache r (cache_dir k) w1"
  have w2: "db w2 = db w" "fetches w2 = fetches w @ [(remote k, path)]"
    "disk_cache w2 = (disk_cache w)((cache_dir k, path, digest r) \<mapsto> content r)"
    using hc r0 by (simp_all add: w2_def write_to_cache_def)
  from assms g r0 obtain d1 where del: "sql_delete ?t (remote k) (digest r) (db w2) = Inr d1"
    by (cases "sql_delete ?t (remote k) (digest r) (db w2)")
       (auto simp add: Keg_get_psv_def Let_def w2_def)
  then obtain rows where rows: "tables (db w) ?t = Some rows"
    and d1: "d1 = (db w)\<lparr>tables := (tables (db w))(?t \<mapsto>
        filter (\<lambda>x. \<not> row_matches (remote k) (digest r) x) rows)\<rparr>"
    by (auto simp add: sql_delete_def w2 split: option.splits)
  obtain ri d2 where ins: "sql_executemany_insert ?t (header p)
      (row_params (remote k) (digest r) p) d1 = (ri, d2)"
    by (cases "sql_executemany_insert ?t (header p) (row_params (remote k) (digest r) p) d1")
  from assms g r0 del ins have ri: "ri = Inr ()"
    by (cases ri) (auto simp add: Keg_get_psv_def Let_def w2_def)
  from assms g r0 del ins ri
  have w': "w' = w2\<lparr>db := sql_insert_response (remote k) path (timestamp r) (digest r) HTTP d2,
      committed := sql_insert_response (remote k) path (timestamp r) (digest r) HTTP d2\<rparr>"
    by (auto simp add: Keg_get_psv_def Let_def w2_def)
  from ins ri have hne: "header p \<noteq> []"
    by (auto simp add: sql_executemany_insert_def split: if_splits)
  obtain rows' where ie: "insert_each (header p) (row_params (remote k) (digest r) p)
        (filter (\<lambda>x. \<not> row_matches (remote k) (digest r) x) rows) = (Inr (), rows')"
    and d2: "d2 = d1\<lparr>tables := (tables d1)(?t \<mapsto> rows')\<rparr>"
    using ins ri hne by (auto simp add: sql_executemany_insert_def d1 split: prod.splits)
  have rows': "rows' = filter (\<lambda>x. \<not> row_matches (remote k) (digest r) x) rows
      @ fetched_rows (remote k) p r"
    using insert_each_ok [OF ie] by (simp add: fetched_rows_def)
  show ?thesis
    using rows hne
    by (simp add: w' w2 d2 d1 rows' sql_insert_response_def response_record_def)
qed

lemma two_digest_first:
  "fst (Keg_get_psv example_loads example_keg ''/cdns'' two_digest_world)
     = Inr (\<lparr>header = [''Name''], psv_rows = [[''eu''], [''us'']]\<rparr>,
            \<lparr>resp_path = ''/cdns'', digest = ''D1'', timestamp = 10, content = ''Name|eu|us''\<rparr>)"
  by (simp add: keg_eval two_digest_world_def)

lemma two_digest_second:
  "fst (Keg_get_psv example_loads example_keg ''/cdns''
         (snd (Keg_get_psv example_loads example_keg ''/cdns'' two_digest_world)))
     = Inr (\<lparr>header = [''Name''], psv_rows = [[''kr'']]\<rparr>,
            \<lparr>resp_path = ''/cdns'', digest = ''D2'', timestamp = 20, content = ''Name|kr''\<rparr>)"
  by (simp add: keg_eval two_digest_world_def)

text \<open>
  Claim C1, as amended. Two successful fetches of one path through \<open>get_psv\<close> append
  one response record each to \<open>responses\<close>, whether or not the two digests are equal:
  \<open>get_psv\<close> only ever inserts there. In the table named for the path, the rows for the
  remote and the second digest are exactly the rows of the second fetch, numbered from 0
  (rows that were there for that digest are deleted first, so with equal digests the
  second row set replaces the first); with different digests the rows of the first fetch
  are there as well, untouched. The second fetch ends committed.
\<close>

theorem get_psv_twice:
  assumes f1: "Keg_get_psv loads k path w0 = (Inr (p1, r1), w1)"
    and f2: "Keg_get_psv loads k path w1 = (Inr (p2, r2), w2)"
  shows "responses (db w2) = responses (db w0) @
           [response_record (remote k) path r1, response_record (remote k) path r2]
     \<and> (\<exists>rows. tables (db w2) (strip slash path) = Some rows
           \<and> rows_of (remote k) (digest r2) rows = fetched_rows (remote k) p2 r2
           \<and> (digest r1 \<noteq> digest r2 \<longrightarrow>
                 rows_of (remote k) (digest r1) rows = fetched_rows (remote k) p1 r1))
     \<and> committed w2 = db w2
     \<and> fetches w2 = fetches w0 @ [(remote k, path), (remote k, path)]"
proof -
  let ?t = "strip slash path"
  from get_psv_success [OF f1] obtain rows0 where
    t1: "tables (db w1) = (tables (db w0))(?t \<mapsto>
          filter (\<lambda>x. \<not> row_matches (remote k) (digest r1) x) rows0 @ fetched_rows (remote k) p1 r1)"
    and rs1: "responses (db w1) = responses (db w0) @ [response_record (remote k) path r1]"
    and fe1: "fetches w1 = fetches w0 @ [(remote k, path)]"
    by blast
  from get_psv_success [OF f2] obtain rows1 where
    t1': "tables (db w1) ?t = Some rows1"
    and t2: "tables (db w2) = (tables (db w1))(?t \<mapsto>
          filter (\<lambda>x. \<not> row_matches (remote k) (digest r2) x) rows1 @ fetched_rows (remote k) p2 r2)"
    and rs2: "responses (db w2) = responses (db w1) @ [response_record (remote k) path r2]"
    and cm: "committed w2 = db w2"
    and fe2: "fetches w2 = fetches w1 @ [(remote k, path)]"
    by blast
  let ?kept = "filter (\<lambda>x. \<not> row_matches (remote k) (digest r1) x) rows0"
  have rows1: "rows1 = ?kept @ fetched_rows (remote k) p1 r1"
    using t1 t1' by simp
  let ?rows2 = "filter (\<lambda>x. \<not> row_matches (remote k) (digest r2) x) rows1
      @ fetched_rows (remote k) p2 r2"
  have a: "tables (db w2) ?t = Some ?rows2"
    by (simp add: t2)
  have b: "rows_of (remote k) (digest r2) ?rows2 = fetched_rows (remote k) p2 r2"
    by (simp add: rows_of_append rows_of_deleted_same rows_of_fetched_same)
  have c: "rows_of (remote k) (digest r1) ?rows2 = fetched_rows (remote k) p1 r1"
    if ne: "digest r1 \<noteq> digest r2"
  proof -
    have "rows_of (remote k) (digest r1) ?rows2 = rows_of (remote k) (digest r1) rows1"
      using ne by (simp add: rows_of_append rows_of_deleted_other rows_of_fetched_other)
    also have "\<dots> = fetched_rows (remote k) p1 r1"
      by (simp add: rows1 rows_of_append rows_of_deleted_same rows_of_fetched_same)
    finally show ?thesis .
  qed
  show ?thesis
    using a b c cm by (auto simp add: rs1 rs2 fe1 fe2)
qed

theorem get_psv_twice_witness:
  "fst (Keg_get_psv example_loads example_keg ''/cdns'' two_digest_world)
     = Inr (\<lparr>header = [''Name''], psv_rows = [[''eu''], [''us'']]\<rparr>,
            \<lparr>resp_path = ''/cdns'', digest = ''D1'', timestamp = 10, content = ''Name|eu|us''\<rparr>)
   \<and> fst (Keg_get_psv example_loads example_keg ''/cdns''
         (snd (Keg_get_psv example_loads example_keg ''/cdns'' two_digest_world)))
     = Inr (\<lparr>header = [''Name''], psv_rows = [[''kr'']]\<rparr>,
            \<lparr>resp_path = ''/cdns'', digest = ''D2'', timestamp = 20, content = ''Name|kr''\<rparr>)
   \<and> responses (db (snd (Keg_get_psv example_loads example_keg ''/cdns''
         (snd (Keg_get_psv example_loads example_keg ''/cdns'' two_digest_world)))))
     = [\<lparr>rr_remote = ''r1'', rr_path = ''/cdns'', rr_timestamp = 10, rr_digest = ''D1'',
         rr_source = 1\<rparr>,
        \<lparr>rr_remote = ''r1'', rr_path = ''/cdns'', rr_timestamp = 20, rr_digest = ''D2'',
         rr_source = 1\<rparr>]
   \<and> map_option (rows_of ''r1'' ''D1'')
        (tables (db (snd (Keg_get_psv example_loads example_keg ''/cdns''
           (snd (Keg_get_psv example_loads example_keg ''/cdns'' two_digest_world))))) ''cdns'')
     = Some [\<lparr>tr_remote = ''r1'', tr_key = ''D1'', tr_row = 0, tr_cells = [(''Name'', ''eu'')]\<rparr>,
             \<lparr>tr_remote = ''r1'', tr_key = ''D1'', tr_row = 1, tr_cells = [(''Name'', ''us'')]\<rparr>]
   \<and> map_option (rows_of ''r1'' ''D2'')
        (tables (db (snd (Keg_get_psv example_loads example_keg ''/cdns''
           (snd (Keg_get_psv example_loads example_keg ''/cdns'' two_digest_world))))) ''cdns'')
     = Some [\<lparr>tr_remote = ''r1'', tr_key = ''D2'', tr_row = 0, tr_cells = [(''Name'', ''kr'')]\<rparr>]"
proof -
  let ?p1 = "\<lparr>header = [''Name''], psv_rows = [[''eu''], [''us'']]\<rparr>"
  let ?r1 = "\<lparr>resp_path = ''/cdns'', digest = ''D1'', timestamp = 10, content = ''Name|eu|us''\<rparr>"
  let ?p2 = "\<lparr>header = [''Name''], psv_rows = [[''kr'']]\<rparr>"
  let ?r2 = "\<lparr>resp_path = ''/cdns'', digest = ''D2'', timestamp = 20, content = ''Name|kr''\<rparr>"
  obtain w1 where g1: "Keg_get_psv example_loads example_keg ''/cdns'' two_digest_world
      = (Inr (?p1, ?r1), w1)"
    using two_digest_first
    by (cases "Keg_get_psv example_loads example_keg ''/cdns'' two_digest_world") simp
  obtain w2 where g2: "Keg_get_psv example_loads example_keg ''/cdns'' w1 = (Inr (?p2, ?r2), w2)"
    using two_digest_second g1
    by (cases "Keg_get_psv example_loads example_keg ''/cdns'' w1") simp
  have st: "strip slash ''/cdns'' = ''cdns''"
    by (simp add: strip_def lstrip_def rstrip_def)
  from get_psv_twice [OF g1 g2] obtain rows where
    "responses (db w2) = responses (db two_digest_world) @
       [response_record ''r1'' ''/cdns'' ?r1, response_record ''r1'' ''/cdns'' ?r2]"
    "tables (db w2) ''cdns'' = Some rows"
    "rows_of ''r1'' ''D2'' rows = fetched_rows ''r1'' ?p2 ?r2"
    "rows_of ''r1'' ''D1'' rows = fetched_rows ''r1'' ?p1 ?r1"
    by (auto simp add: example_keg_def st)
  then show ?thesis
    using g1 g2
    by (simp add: two_digest_world_def empty_db_def response_record_def fetched_rows_def
        row_params_def tagged_row_def)
qed

text \<open>
  Claim C1 as stated (one response record after fetching the same digest twice) fails:
  with an empty store and a remote that answers twice with digest \<open>D1\<close>, \<open>responses\<close>
  holds two records for that remote and digest.
\<close>

theorem get_psv_twice_counterexample:
  "fst (Keg_get_psv example_loads example_keg ''/cdns'' same_digest_world)
     = Inr (\<lparr>header = [''Name''], psv_rows = [[''eu''], [''us'']]\<rparr>,
            \<lparr>resp_path = ''/cdns'', digest = ''D1'', timestamp = 10, content = ''Name|eu|us''\<rparr>)
   \<and> fst (Keg_get_psv example_loads example_keg ''/cdns''
         (snd (Keg_get_psv example_loads example_keg ''/cdns'' same_digest_world)))
     = Inr (\<lparr>header = [''Name''], psv_rows = [[''eu''], [''us'']]\<rparr>,
            \<lparr>resp_path = ''/cdns'', digest = ''D1'', timestamp = 20, content = ''Name|eu|us''\<rparr>)
   \<and> response_records ''r1'' ''D1'' (db (snd (Keg_get_psv example_loads example_keg ''/cdns''
         (snd (Keg_get_psv example_loads example_keg ''/cdns'' same_digest_world)))))
     = [\<lparr>rr_remote = ''r1'', rr_path = ''/cdns'', rr_timestamp = 10, rr_digest = ''D1'',
         rr_source = 1\<rparr>,
        \<lparr>rr_remote = ''r1'', rr_path = ''/cdns'', rr_timestamp = 20, rr_digest = ''D1'',
         rr_source = 1\<rparr>]
   \<and> length (responses (db (snd (Keg_get_psv example_loads example_keg ''/cdns''
         (snd (Keg_get_psv example_loads example_keg ''/cdns'' same_digest_world)))))) \<noteq> 1"
  by (simp add: keg_eval same_digest_world_def response_records_def)

section \<open>Properties of \<open>Keg.get_cached_cdns\<close>\<close>

lemma latest_None: "latest rs = None \<longleftrightarrow> rs = []"
  by (induction rs) (auto split: option.splits)

lemma latest_Some:
  "latest rs = Some m \<Longrightarrow> m \<in> set rs \<and> (\<forall>r \<in> set rs. rr_timestamp r \<le> rr_timestamp m)"
proof (induction rs arbitrary: m)
  case Nil
  then show ?case by simp
next
  case (Cons r rs)
  show ?case
  proof (cases "latest rs")
    case None
    then have "rs = []" by (simp add: latest_None)
    with Cons.prems show ?thesis by simp
  next
    case (Some m')
    note ih = Cons.IH [OF Some]
    show ?thesis
    proof (cases "rr_timestamp r < rr_timestamp m'")
      case True
      with Cons.prems Some have "m = m'" by simp
      with ih True show ?thesis by auto
    next
      case False
      with Cons.prems Some have "m = r" by simp
      with ih False show ?thesis by fastforce
    qed
  qed
qed

lemma http_get_psv_fetches:
  "fetches (snd (HttpBackend_get_psv loads rem path w)) = fetches w @ [(rem, path)]"
  by (cases "HttpBackend_get_psv loads rem path w") (simp add: http_get_psv_cases)

lemma get_psv_fetches:
  "fetches (snd (Keg_get_psv loads k path w)) = fetches w @ [(remote k, path)]"
proof -
  obtain r0 w1 where g: "HttpBackend_get_psv loads (remote k) path w = (r0, w1)"
    by (cases "HttpBackend_get_psv loads (remote k) path w")
  then have f: "fetches w1 = fetches w @ [(remote k, path)]"
    by (simp add: http_get_psv_cases)
  show ?thesis
    unfolding Keg_get_psv_def g
    by (auto simp add: f write_to_cache_def Let_def split: sum.splits prod.splits)
qed

lemma get_cdns_fetches:
  "fetches (snd (Keg_get_cdns loads k w)) = fetches w @ [(remote k, ''/cdns'')]"
  using get_psv_fetches [of loads k "''/cdns''" w]
  by (cases "Keg_get_psv loads k ''/cdns'' w") (auto simp add: Keg_get_cdns_def split: sum.splits)

text \<open>
  Claim C5. If \<open>responses\<close> has a record for the remote and \<open>/cdns\<close>, \<open>get_cached_cdns\<close>
  takes the digest of one with the greatest timestamp, returns the descriptors of the rows
  parsed from the cached body for that digest (or the error of reading or parsing it), and
  leaves the world as it is: no request is made. If there is no such record, it is the
  live \<open>get_cdns\<close> and makes exactly one request, for \<open>/cdns\<close> on the remote of the Keg.
\<close>

theorem get_cached_cdns_cache_first:
  "((\<exists>r \<in> set (responses (db w)). response_for rem ''/cdns'' r) \<longrightarrow>
      (\<exists>r \<in> set (responses (db w)).
         response_for rem ''/cdns'' r
         \<and> (\<forall>r' \<in> set (responses (db w)).
               response_for rem ''/cdns'' r' \<longrightarrow> rr_timestamp r' \<le> rr_timestamp r)
         \<and> Keg_get_cached_cdns loads k rem dir w =
             (case Keg_get_cached_psv loads ''/cdns'' (rr_digest r) dir w of
                Inl e \<Rightarrow> Inl e
              | Inr p \<Rightarrow> Inr (map CDNs (psv_rows p)), w)
         \<and> fetches (snd (Keg_get_cached_cdns loads k rem dir w)) = fetches w))
   \<and> ((\<forall>r \<in> set (responses (db w)). \<not> response_for rem ''/cdns'' r) \<longrightarrow>
         Keg_get_cached_cdns loads k rem dir w = Keg_get_cdns loads k w
         \<and> fetches (snd (Keg_get_cached_cdns loads k rem dir w))
             = fetches w @ [(remote k, ''/cdns'')])"
proof -
  let ?m = "filter (response_for rem ''/cdns'') (responses (db w))"
  show ?thesis
  proof (cases "latest ?m")
    case None
    then have e: "?m = []"
      by (simp add: latest_None)
    then have no: "\<forall>r \<in> set (responses (db w)). \<not> response_for rem ''/cdns'' r"
      by (simp add: filter_empty_conv)
    have "Keg_get_cached_cdns loads k rem dir w = Keg_get_cdns loads k w"
      by (simp add: Keg_get_cached_cdns_def sql_select_latest_digest_def None)
    then show ?thesis
      using no get_cdns_fetches [of loads k w] by simp
  next
    case (Some m)
    note l = latest_Some [OF Some]
    then have m: "m \<in> set (responses (db w))" "response_for rem ''/cdns'' m"
      and mx: "\<forall>r' \<in> set (responses (db w)).
               response_for rem ''/cdns'' r' \<longrightarrow> rr_timestamp r' \<le> rr_timestamp m"
      by auto
    have res: "Keg_get_cached_cdns loads k rem dir w =
             (case Keg_get_cached_psv loads ''/cdns'' (rr_digest m) dir w of
                Inl e \<Rightarrow> Inl e
              | Inr p \<Rightarrow> Inr (map CDNs (psv_rows p)), w)"
      by (simp add: Keg_get_cached_cdns_def sql_select_latest_digest_def Some split: sum.splits)
    then have "fetches (snd (Keg_get_cached_cdns loads k rem dir w)) = fetches w"
      by simp
    with m mx res show ?thesis
      by blast
  qed
qed

theorem get_cached_cdns_cache_first_witness:
  "Keg_get_cached_cdns example_loads example_keg ''r1'' ''d'' cached_world
     = (Inr [CDNs [''kr'']], cached_world)
   \<and> fetches cached_world = []
   \<and> fst (Keg_get_cached_cdns example_loads example_keg ''r1'' ''d'' two_digest_world)
     = Inr [CDNs [''eu''], CDNs [''us'']]
   \<and> fetches (snd (Keg_get_cached_cdns example_loads example_keg ''r1'' ''d'' two_digest_world))
     = [(''r1'', ''/cdns'')]"
proof -
  have none: "\<forall>r \<in> set (responses (db two_digest_world)). \<not> response_for ''r1'' ''/cdns'' r"
    by (simp add: two_digest_world_def empty_db_def)
  have live: "Keg_get_cached_cdns example_loads example_keg ''r1'' ''d'' two_digest_world
        = Keg_get_cdns example_loads example_keg two_digest_world
      \<and> fetches (snd (Keg_get_cached_cdns example_loads example_keg ''r1'' ''d'' two_digest_world))
        = fetches two_digest_world @ [(remote example_keg, ''/cdns'')]"
    using get_cached_cdns_cache_first
            [of two_digest_world "''r1''" example_loads example_keg "''d''"] none
    by blast
  have val: "fst (Keg_get_cdns example_loads example_keg two_digest_world)
      = Inr [CDNs [''eu''], CDNs [''us'']]"
    using two_digest_first
    by (cases "Keg_get_psv example_loads example_keg ''/cdns'' two_digest_world")
       (simp add: Keg_get_cdns_def)
  have some: "\<exists>r \<in> set (responses (db cached_world)). response_for ''r1'' ''/cdns'' r"
    by (simp add: cached_world_def response_for_def)
  from get_cached_cdns_cache_first
         [of cached_world "''r1''" example_loads example_keg "''d''"] some
  obtain r where r: "r \<in> set (responses (db cached_world))" "response_for ''r1'' ''/cdns'' r"
    "\<forall>r' \<in> set (responses (db cached_world)).
        response_for ''r1'' ''/cdns'' r' \<longrightarrow> rr_timestamp r' \<le> rr_timestamp r"
    "Keg_get_cached_cdns example_loads example_keg ''r1'' ''d'' cached_world =
       (case Keg_get_cached_psv example_loads ''/cdns'' (rr_digest r) ''d'' cached_world of
          Inl e \<Rightarrow> Inl e
        | Inr p \<Rightarrow> Inr (map CDNs (psv_rows p)), cached_world)"
    by blast
  from r(1,2,3) have "rr_digest r = ''D2''"
    by (auto simp add: cached_world_def response_for_def)
  moreover have "Keg_get_cached_psv example_loads ''/cdns'' ''D2'' ''d'' cached_world
      = Inr \<lparr>header = [''Name''], psv_rows = [[''kr'']]\<rparr>"
    by (simp add: Keg_get_cached_psv_def StateCache_read_def example_loads_def cached_world_def)
  ultimately have cached:
    "Keg_get_cached_cdns example_loads example_keg ''r1'' ''d'' cached_world
       = (Inr [CDNs [''kr'']], cached_world)"
    using r(4) by simp
  have c2: "fetches cached_world = []"
    by (simp add: cached_world_def)
  have l1: "fst (Keg_get_cached_cdns example_loads example_keg ''r1'' ''d'' two_digest_world)
      = Inr [CDNs [''eu''], CDNs [''us'']]"
    using live val by simp
  have l2: "fetches (snd (Keg_get_cached_cdns example_loads example_keg ''r1'' ''d'' two_digest_world))
      = [(''r1'', ''/cdns'')]"
  proof -
    have "remote example_keg = ''r1''" "fetches two_digest_world = []"
      by (simp_all add: example_keg_def two_digest_world_def)
    moreover from live
    have "fetches (snd (Keg_get_cached_cdns example_loads example_keg ''r1'' ''d'' two_digest_world))
        = fetches two_digest_world @ [(remote example_keg, ''/cdns'')]"
      by blast
    ultimately show ?thesis
      by simp
  qed
  show ?thesis
    using cached c2 l1 l2 by simp
qed

end
